theory Spec2Isabelle
  imports Complex_Main
begin

section \<open>ZenFlow icon generators\<close>

text \<open>
  The repository holds two scripts that draw the application icon at every size of the
  iOS icon catalogue: \<^verbatim>\<open>Scripts/generate_app_icons.py\<close> (vertical gradient, writes the
  \<^verbatim>\<open>Contents.json\<close> manifest) and \<^verbatim>\<open>generate_icons.py\<close> (radial gradient, no manifest).
  Both define \<^verbatim>\<open>generate_all_icons\<close>; the definitions taken from \<^verbatim>\<open>generate_icons.py\<close>
  carry the suffix \<open>_zen\<close> where the names clash.
\<close>

subsection \<open>Size tables and manifest\<close>

text \<open>\<^verbatim>\<open>ICON_SIZES\<close> of \<^verbatim>\<open>Scripts/generate_app_icons.py\<close>: (filename, pixel size).\<close>

definition ICON_SIZES :: "(string \<times> nat) list" where
  "ICON_SIZES =
    [(''icon-20@2x.png'', 40),
     (''icon-20@3x.png'', 60),
     (''icon-29@2x.png'', 58),
     (''icon-29@3x.png'', 87),
     (''icon-40@2x.png'', 80),
     (''icon-40@3x.png'', 120),
     (''icon-60@2x.png'', 120),
     (''icon-60@3x.png'', 180),
     (''icon-20.png'', 20),
     (''icon-20@2x-ipad.png'', 40),
     (''icon-29.png'', 29),
     (''icon-29@2x-ipad.png'', 58),
     (''icon-40.png'', 40),
     (''icon-40@2x-ipad.png'', 80),
     (''icon-76.png'', 76),
     (''icon-76@2x.png'', 152),
     (''icon-83.5@2x.png'', 167),
     (''icon-1024.png'', 1024)]"

text \<open>One record of the \<^verbatim>\<open>images\<close> list of \<^verbatim>\<open>CONTENTS_JSON\<close>: the dictionary keys
  \<^verbatim>\<open>filename\<close>, \<^verbatim>\<open>idiom\<close>, \<^verbatim>\<open>scale\<close> and \<^verbatim>\<open>size\<close> (all strings), as fields with the
  prefix \<open>img_\<close>.\<close>

record image_record =
  img_filename :: string
  img_idiom :: string
  img_scale :: string
  img_size :: string

record info_record =
  author :: string
  version :: int

record contents =
  images :: "image_record list"
  info :: info_record

definition CONTENTS_JSON :: contents where
  "CONTENTS_JSON = \<lparr>images =
    [\<lparr>img_filename = ''icon-20@2x.png'', img_idiom = ''iphone'', img_scale = ''2x'', img_size = ''20x20''\<rparr>,
     \<lparr>img_filename = ''icon-20@3x.png'', img_idiom = ''iphone'', img_scale = ''3x'', img_size = ''20x20''\<rparr>,
     \<lparr>img_filename = ''icon-29@2x.png'', img_idiom = ''iphone'', img_scale = ''2x'', img_size = ''29x29''\<rparr>,
     \<lparr>img_filename = ''icon-29@3x.png'', img_idiom = ''iphone'', img_scale = ''3x'', img_size = ''29x29''\<rparr>,
     \<lparr>img_filename = ''icon-40@2x.png'', img_idiom = ''iphone'', img_scale = ''2x'', img_size = ''40x40''\<rparr>,
     \<lparr>img_filename = ''icon-40@3x.png'', img_idiom = ''iphone'', img_scale = ''3x'', img_size = ''40x40''\<rparr>,
     \<lparr>img_filename = ''icon-60@2x.png'', img_idiom = ''iphone'', img_scale = ''2x'', img_size = ''60x60''\<rparr>,
     \<lparr>img_filename = ''icon-60@3x.png'', img_idiom = ''iphone'', img_scale = ''3x'', img_size = ''60x60''\<rparr>,
     \<lparr>img_filename = ''icon-20.png'', img_idiom = ''ipad'', img_scale = ''1x'', img_size = ''20x20''\<rparr>,
     \<lparr>img_filename = ''icon-20@2x-ipad.png'', img_idiom = ''ipad'', img_scale = ''2x'', img_size = ''20x20''\<rparr>,
     \<lparr>img_filename = ''icon-29.png'', img_idiom = ''ipad'', img_scale = ''1x'', img_size = ''29x29''\<rparr>,
     \<lparr>img_filename = ''icon-29@2x-ipad.png'', img_idiom = ''ipad'', img_scale = ''2x'', img_size = ''29x29''\<rparr>,
     \<lparr>img_filename = ''icon-40.png'', img_idiom = ''ipad'', img_scale = ''1x'', img_size = ''40x40''\<rparr>,
     \<lparr>img_filename = ''icon-40@2x-ipad.png'', img_idiom = ''ipad'', img_scale = ''2x'', img_size = ''40x40''\<rparr>,
     \<lparr>img_filename = ''icon-76.png'', img_idiom = ''ipad'', img_scale = ''1x'', img_size = ''76x76''\<rparr>,
     \<lparr>img_filename = ''icon-76@2x.png'', img_idiom = ''ipad'', img_scale = ''2x'', img_size = ''76x76''\<rparr>,
     \<lparr>img_filename = ''icon-83.5@2x.png'', img_idiom = ''ipad'', img_scale = ''2x'', img_size = ''83.5x83.5''\<rparr>,
     \<lparr>img_filename = ''icon-1024.png'', img_idiom = ''ios-marketing'', img_scale = ''1x'',
       img_size = ''1024x1024''\<rparr>],
    info = \<lparr>author = ''xcode'', version = 1\<rparr>\<rparr>"

text \<open>\<^verbatim>\<open>ICON_SPECS\<close> of \<^verbatim>\<open>generate_icons.py\<close>: (base size, scale, filename). The base size
  is a Python number (\<^verbatim>\<open>83.5\<close> is a float, exactly representable), here a rational.\<close>

definition ICON_SPECS :: "(rat \<times> rat \<times> string) list" where
  "ICON_SPECS =
    [(20, 2, ''icon-20@2x.png''),
     (20, 3, ''icon-20@3x.png''),
     (29, 2, ''icon-29@2x.png''),
     (29, 3, ''icon-29@3x.png''),
     (40, 2, ''icon-40@2x.png''),
     (40, 3, ''icon-40@3x.png''),
     (60, 2, ''icon-60@2x.png''),
     (60, 3, ''icon-60@3x.png''),
     (20, 1, ''icon-20.png''),
     (20, 2, ''icon-20@2x-ipad.png''),
     (29, 1, ''icon-29.png''),
     (29, 2, ''icon-29@2x-ipad.png''),
     (40, 1, ''icon-40.png''),
     (40, 2, ''icon-40@2x-ipad.png''),
     (76, 1, ''icon-76.png''),
     (76, 2, ''icon-76@2x.png''),
     (167 / 2, 2, ''icon-83.5@2x.png''),
     (1024, 1, ''icon-1024.png'')]"

text \<open>Python's \<^verbatim>\<open>int(x)\<close> on a number: truncation towards zero.\<close>

definition py_int :: "'a::floor_ceiling \<Rightarrow> int" where
  "py_int q = (if 0 \<le> q then \<lfloor>q\<rfloor> else \<lceil>q\<rceil>)"

text \<open>The pixel size that the loop of \<^verbatim>\<open>generate_icons.py\<close> computes for an entry:
  \<^verbatim>\<open>pixel_size = int(base_size * scale)\<close>.\<close>

definition pixel_size_of :: "rat \<times> rat \<times> string \<Rightarrow> int" where
  "pixel_size_of spec = (case spec of (base_size, scale, filename) \<Rightarrow> py_int (base_size * scale))"

subsection \<open>Exceptions and printed lines\<close>

text \<open>
  The exceptions of the model. Each is a subclass of Python's \<^verbatim>\<open>Exception\<close>, the class
  that the handlers \<^verbatim>\<open>except Exception as e\<close> of \<^verbatim>\<open>Scripts/generate_app_icons.py\<close>
  catch. \<open>OSError\<close> carries the message that the handler prints.
\<close>

datatype exc = ZeroDivisionError | IndexError | ValueError | OSError string

text \<open>
  The lines that the two writers print, one constructor per \<^verbatim>\<open>print\<close> call of the
  source, with the values the f-string interpolates. The first block is
  \<^verbatim>\<open>Scripts/generate_app_icons.py\<close>, the second \<^verbatim>\<open>generate_icons.py\<close>.
\<close>

datatype line =
    Title
  | Rule
  | Design
  | Output string
  | Blank
  | Icon_ok string nat
  | Icon_failed string exc
  | Contents_ok
  | Contents_failed exc
  | Complete
  | Success_tally int nat
  | Failed_tally int
  | Ready
  | Generating
  | Creating string int
  | Generated nat
  | Saved_to string

subsection \<open>The writer of \<^verbatim>\<open>Scripts/generate_app_icons.py\<close>\<close>

text \<open>
  The state of \<^verbatim>\<open>generate_all_icons\<close>: the two counters (Python integers) and what has
  been printed so far.
\<close>

record run_state =
  success_count :: int
  fail_count :: int
  printed :: "line list"

text \<open>
  The outside world of a run: \<open>mkdir\<close> is the outcome of
  \<^verbatim>\<open>output_path.mkdir(parents=True, exist_ok=True)\<close>, \<open>save\<close> the outcome of
  \<^verbatim>\<open>icon.save(output_path / filename, 'PNG')\<close>, \<open>dump\<close> the outcome of opening
  \<^verbatim>\<open>Contents.json\<close> and \<^verbatim>\<open>json.dump\<close>; \<open>None\<close> is success, \<open>Some e\<close> the exception
  raised. Printing itself is taken not to fail.
\<close>

record 'img world =
  mkdir :: "exc option"
  save :: "'img \<Rightarrow> string \<Rightarrow> exc option"
  dump :: "contents \<Rightarrow> exc option"

text \<open>
  The two statements that can raise inside an iteration, in both scripts: the rendering
  (\<^verbatim>\<open>icon = draw_breathing_circles_icon(pixel_size)\<close>, or \<^verbatim>\<open>create_zen_icon\<close>) and then
  \<^verbatim>\<open>icon.save\<close>. The result is the exception raised, if any. The renderer is a
  parameter, so that a failing rendering is covered.
\<close>

definition render_and_save ::
  "('n \<Rightarrow> exc + 'img) \<Rightarrow> 'img world \<Rightarrow> string \<Rightarrow> 'n \<Rightarrow> exc option" where
  "render_and_save render w filename pixel_size =
     (case render pixel_size of
        Inl e \<Rightarrow> Some e
      | Inr icon \<Rightarrow> save w icon filename)"

text \<open>
  One iteration of \<^verbatim>\<open>for filename, pixel_size in ICON_SIZES\<close>: when the body of the
  \<^verbatim>\<open>try\<close> raises nothing it prints and counts a success; an exception goes to the
  handler, which prints and counts a failure.
\<close>

definition icon_step ::
  "(nat \<Rightarrow> exc + 'img) \<Rightarrow> 'img world \<Rightarrow> string \<times> nat \<Rightarrow> run_state \<Rightarrow> run_state" where
  "icon_step render w entry s =
     (case entry of (filename, pixel_size) \<Rightarrow>
        (case render_and_save render w filename pixel_size of
           None \<Rightarrow> s\<lparr>success_count := success_count s + 1,
                       printed := printed s @ [Icon_ok filename pixel_size]\<rparr>
         | Some e \<Rightarrow> s\<lparr>fail_count := fail_count s + 1,
                        printed := printed s @ [Icon_failed filename e]\<rparr>))"

fun icon_loop ::
  "(nat \<Rightarrow> exc + 'img) \<Rightarrow> 'img world \<Rightarrow> (string \<times> nat) list \<Rightarrow> run_state \<Rightarrow> run_state" where
  "icon_loop render w [] s = s"
| "icon_loop render w (entry # entries) s = icon_loop render w entries (icon_step render w entry s)"

text \<open>The \<^verbatim>\<open>try\<close> around the writing of \<^verbatim>\<open>Contents.json\<close>.\<close>

definition write_contents :: "'img world \<Rightarrow> run_state \<Rightarrow> run_state" where
  "write_contents w s =
     (case dump w CONTENTS_JSON of
        None \<Rightarrow> s\<lparr>printed := printed s @ [Contents_ok]\<rparr>
      | Some e \<Rightarrow> s\<lparr>fail_count := fail_count s + 1,
                    printed := printed s @ [Contents_failed e]\<rparr>)"

text \<open>The summary printed at the end.\<close>

definition print_summary :: "run_state \<Rightarrow> run_state" where
  "print_summary s =
     s\<lparr>printed := printed s @
        [Blank, Rule, Complete, Success_tally (success_count s) (length ICON_SIZES)] @
        (if fail_count s > 0 then [Failed_tally (fail_count s)] else []) @
        [Blank, Ready]\<rparr>"

definition initial_state :: "string \<Rightarrow> run_state" where
  "initial_state output_dir =
     \<lparr>success_count = 0, fail_count = 0,
      printed = [Title, Rule, Design, Output output_dir, Blank]\<rparr>"

text \<open>
  \<^verbatim>\<open>generate_all_icons(output_dir)\<close>. The result is the final state and the exception that
  left the function uncaught, if any: only \<^verbatim>\<open>mkdir\<close> stands outside every \<^verbatim>\<open>try\<close>.
\<close>

definition generate_all_icons ::
  "(nat \<Rightarrow> exc + 'img) \<Rightarrow> 'img world \<Rightarrow> string \<Rightarrow> run_state \<times> exc option" where
  "generate_all_icons render w output_dir =
     (let s0 = initial_state output_dir in
      case mkdir w of
        Some e \<Rightarrow> (s0, Some e)
      | None \<Rightarrow>
          (print_summary (write_contents w (icon_loop render w ICON_SIZES s0)), None))"

subsection \<open>The writer of \<^verbatim>\<open>generate_icons.py\<close>\<close>

text \<open>
  The loop \<^verbatim>\<open>for base_size, scale, filename in ICON_SPECS\<close>. There is no \<^verbatim>\<open>try\<close>
  in this script: an exception of \<^verbatim>\<open>create_zen_icon\<close> or of \<^verbatim>\<open>icon.save\<close> leaves the loop
  and the function. The result is what was printed and the uncaught exception, if any.
  The renderer receives \<^verbatim>\<open>pixel_size\<close>, a Python integer.
\<close>

fun spec_loop ::
  "(int \<Rightarrow> exc + 'img) \<Rightarrow> 'img world \<Rightarrow> (rat \<times> rat \<times> string) list \<Rightarrow> line list \<Rightarrow>
   line list \<times> exc option" where
  "spec_loop render w [] out = (out, None)"
| "spec_loop render w (spec # specs) out =
     (case spec of (base_size, scale, filename) \<Rightarrow>
        (let pixel_size = py_int (base_size * scale);
             out1 = out @ [Creating filename pixel_size]
         in case render_and_save render w filename pixel_size of
              Some e \<Rightarrow> (out1, Some e)
            | None \<Rightarrow> spec_loop render w specs out1))"

definition generate_all_icons_zen ::
  "(int \<Rightarrow> exc + 'img) \<Rightarrow> 'img world \<Rightarrow> string \<Rightarrow> line list \<times> exc option" where
  "generate_all_icons_zen render w output_dir =
     (case mkdir w of
        Some e \<Rightarrow> ([], Some e)
      | None \<Rightarrow>
          (case spec_loop render w ICON_SPECS [Generating] of
             (out, Some e) \<Rightarrow> (out, Some e)
           | (out, None) \<Rightarrow>
               (out @ [Generated (length ICON_SPECS), Saved_to output_dir], None)))"

subsection \<open>Numbers, colours, images\<close>

text \<open>
  Python floats are IEEE 754 doubles. In the radial background of \<^verbatim>\<open>generate_icons.py\<close>
  they are modelled as such: every operation is the exact operation on the reals followed
  by \<open>round_double\<close>, rounding to the nearest double with ties to the even mantissa. The
  exponent range is taken as unbounded, so overflow and subnormal numbers are left out;
  neither arises in that computation for a size an image can have. \<^verbatim>\<open>float(n)\<close>,
  \<^verbatim>\<open>math.sqrt\<close>, \<^verbatim>\<open>/\<close>, \<^verbatim>\<open>*\<close>, \<^verbatim>\<open>+\<close> and \<^verbatim>\<open>-\<close> on doubles are \<open>py_float\<close>, \<open>double_sqrt\<close>,
  \<open>double_div\<close>, \<open>double_mul\<close>, \<open>double_add\<close> and \<open>double_sub\<close>.

  Everywhere else (the vertical gradient, the glows, the scaled parameters of both
  renderers) floats are idealised as real numbers: \<^verbatim>\<open>/\<close> is exact division (\<open>py_div\<close>) and
  \<^verbatim>\<open>math.sqrt\<close> is the real square root. In both models \<^verbatim>\<open>/\<close> raises \<^verbatim>\<open>ZeroDivisionError\<close>
  on a zero divisor and \<^verbatim>\<open>int\<close> truncates (\<open>py_int\<close> above). \<^verbatim>\<open>range(n)\<close> is empty for
  \<open>n \<le> 0\<close>.
\<close>

definition py_div :: "real \<Rightarrow> real \<Rightarrow> exc + real" where
  "py_div a b = (if b = 0 then Inl ZeroDivisionError else Inr (a / b))"

text \<open>
  The nearest integer to a real, halves going to the even one; the unit in the last place
  of a double with 53 bits of mantissa; and the double nearest to a real.
\<close>

definition round_even :: "real \<Rightarrow> int" where
  "round_even y =
     (let f = \<lfloor>y\<rfloor>
      in if y - real_of_int f < 1 / 2 then f
         else if 1 / 2 < y - real_of_int f then f + 1
         else if even f then f else f + 1)"

definition ulp :: "real \<Rightarrow> real" where
  "ulp x = 2 powr real_of_int (\<lfloor>log 2 \<bar>x\<bar>\<rfloor> - 52)"

definition round_double :: "real \<Rightarrow> real" where
  "round_double x = (if x = 0 then 0 else real_of_int (round_even (x / ulp x)) * ulp x)"

definition py_float :: "int \<Rightarrow> real" where
  "py_float n = round_double (real_of_int n)"

definition double_sqrt :: "real \<Rightarrow> real" where
  "double_sqrt x = round_double (sqrt x)"

definition double_div :: "real \<Rightarrow> real \<Rightarrow> exc + real" where
  "double_div a b = (if b = 0 then Inl ZeroDivisionError else Inr (round_double (a / b)))"

definition double_mul :: "real \<Rightarrow> real \<Rightarrow> real" where
  "double_mul a b = round_double (a * b)"

definition double_add :: "real \<Rightarrow> real \<Rightarrow> real" where
  "double_add a b = round_double (a + b)"

definition double_sub :: "real \<Rightarrow> real \<Rightarrow> real" where
  "double_sub a b = round_double (a - b)"

definition py_range :: "int \<Rightarrow> int list" where
  "py_range n = map int [0..<nat n]"

text \<open>
  A \<^verbatim>\<open>for\<close> loop over a list whose body may raise: the first exception ends the loop.
\<close>

fun for_each :: "('a \<Rightarrow> 's \<Rightarrow> exc + 's) \<Rightarrow> 'a list \<Rightarrow> 's \<Rightarrow> exc + 's" where
  "for_each body [] s = Inr s"
| "for_each body (x # xs) s =
     (case body x s of Inl e \<Rightarrow> Inl e | Inr s' \<Rightarrow> for_each body xs s')"

text \<open>
  A colour handed to the imaging library is a tuple of three or of four integers. The
  palette of \<^verbatim>\<open>Scripts/generate_app_icons.py\<close> holds 3-tuples; \<^verbatim>\<open>C + (a,)\<close> appends the
  opacity.
\<close>

datatype color = Rgb int int int | Rgba int int int int

fun red :: "color \<Rightarrow> int" where
  "red (Rgb r g b) = r"
| "red (Rgba r g b a) = r"

fun green :: "color \<Rightarrow> int" where
  "green (Rgb r g b) = g"
| "green (Rgba r g b a) = g"

fun blue :: "color \<Rightarrow> int" where
  "blue (Rgb r g b) = b"
| "blue (Rgba r g b a) = b"

definition CALM_BLUE :: "int \<times> int \<times> int" where
  "CALM_BLUE = (89, 115, 217)"

definition SERENE_PURPLE :: "int \<times> int \<times> int" where
  "SERENE_PURPLE = (128, 89, 217)"

definition SOFT_PURPLE :: "int \<times> int \<times> int" where
  "SOFT_PURPLE = (115, 89, 166)"

definition DEEP_INDIGO :: "int \<times> int \<times> int" where
  "DEEP_INDIGO = (46, 38, 89)"

definition LIGHTER_INDIGO :: "int \<times> int \<times> int" where
  "LIGHTER_INDIGO = (64, 56, 107)"

definition with_alpha :: "int \<times> int \<times> int \<Rightarrow> int \<Rightarrow> color" where
  "with_alpha c a = (case c of (r, g, b) \<Rightarrow> Rgba r g b a)"

text \<open>
  The imaging library (Pillow) is not part of the repository. An image is modelled by what
  the scripts determine: its mode, its width and height, and the drawing calls made on it,
  in order, with their arguments. \<open>Paste\<close> holds the pasted image and the mask as they
  are at the time of the call. The arguments of \<open>Ellipse\<close> are the bounding box, the
  fill, the outline and the width (1 when the call gives none).
\<close>

datatype mode = Mode_RGB | Mode_RGBA

datatype draw_op =
    Line "int \<times> int" "int \<times> int" color
  | Putpixel "int \<times> int" color
  | Ellipse "real \<times> real \<times> real \<times> real" "color option" "color option" int
  | Paste image "int \<times> int" image
and image = Image mode nat nat "draw_op list"

fun width :: "image \<Rightarrow> nat" where
  "width (Image m w h cs) = w"

fun height :: "image \<Rightarrow> nat" where
  "height (Image m w h cs) = h"

fun calls :: "image \<Rightarrow> draw_op list" where
  "calls (Image m w h cs) = cs"

fun add_call :: "draw_op \<Rightarrow> image \<Rightarrow> image" where
  "add_call c (Image m w h cs) = Image m w h (cs @ [c])"

text \<open>
  Images are objects that the drawing calls mutate. The store holds every image created
  so far; an image is known by its index. \<^verbatim>\<open>Image.new\<close> adds a fresh image without
  calls; every drawing call changes one image of the store.
\<close>

type_synonym store = "image list"

definition Image_new :: "mode \<Rightarrow> nat \<times> nat \<Rightarrow> store \<Rightarrow> nat \<times> store" where
  "Image_new m dims st = (case dims of (w, h) \<Rightarrow> (length st, st @ [Image m w h []]))"

definition draw_on :: "nat \<Rightarrow> draw_op \<Rightarrow> store \<Rightarrow> store" where
  "draw_on img c st = st[img := add_call c (st ! img)]"

definition draw_line :: "nat \<Rightarrow> int \<times> int \<Rightarrow> int \<times> int \<Rightarrow> color \<Rightarrow> store \<Rightarrow> store" where
  "draw_line img p q fill st = draw_on img (Line p q fill) st"

definition putpixel :: "nat \<Rightarrow> int \<times> int \<Rightarrow> color \<Rightarrow> store \<Rightarrow> store" where
  "putpixel img xy c st = draw_on img (Putpixel xy c) st"

text \<open>Pillow's \<^verbatim>\<open>draw.ellipse\<close> raises \<^verbatim>\<open>ValueError\<close> for a bounding box whose second
  corner lies left of or above the first.\<close>

definition draw_ellipse ::
  "nat \<Rightarrow> real \<times> real \<times> real \<times> real \<Rightarrow> color option \<Rightarrow> color option \<Rightarrow> int \<Rightarrow> store \<Rightarrow>
   exc + store" where
  "draw_ellipse img bbox fill outline wd st =
     (case bbox of (x0, y0, x1, y1) \<Rightarrow>
        if x1 < x0 \<or> y1 < y0 then Inl ValueError
        else Inr (draw_on img (Ellipse bbox fill outline wd) st))"

definition paste :: "nat \<Rightarrow> nat \<Rightarrow> int \<times> int \<Rightarrow> nat \<Rightarrow> store \<Rightarrow> store" where
  "paste img src box msk st = draw_on img (Paste (st ! src) box (st ! msk)) st"

text \<open>
  The pixels that the scripts themselves determine: a horizontal \<^verbatim>\<open>draw.line\<close> writes its
  colour to every pixel between its end points, both included, and \<^verbatim>\<open>putpixel\<close> to one
  pixel. \<open>written_pixel\<close> is the colour that the last such call gave to a pixel of the
  image, \<open>None\<close> when no such call reached it, so that the pixel was never assigned by
  the background pass. Ellipses and pastes are rasterised by the library and are not
  interpreted.
\<close>

fun covers :: "draw_op \<Rightarrow> int \<Rightarrow> int \<Rightarrow> bool" where
  "covers (Line (x0, y0) (x1, y1) fill) x y =
     (y0 = y1 \<and> y = y0 \<and> min x0 x1 \<le> x \<and> x \<le> max x0 x1)"
| "covers (Putpixel (px, py) c) x y = (x = px \<and> y = py)"
| "covers (Ellipse bbox fill outline wd) x y = False"
| "covers (Paste src box msk) x y = False"

fun ink :: "draw_op \<Rightarrow> color option" where
  "ink (Line p q fill) = Some fill"
| "ink (Putpixel xy c) = Some c"
| "ink (Ellipse bbox fill outline wd) = None"
| "ink (Paste src box msk) = None"

fun last_write :: "draw_op list \<Rightarrow> int \<Rightarrow> int \<Rightarrow> color option" where
  "last_write [] x y = None"
| "last_write (c # cs) x y =
     (case last_write cs x y of
        Some v \<Rightarrow> Some v
      | None \<Rightarrow> (if covers c x y then ink c else None))"

definition written_pixel :: "image \<Rightarrow> int \<Rightarrow> int \<Rightarrow> color option" where
  "written_pixel im x y =
     (if 0 \<le> x \<and> x < int (width im) \<and> 0 \<le> y \<and> y < int (height im)
      then last_write (calls im) x y else None)"

subsection \<open>The renderer of \<^verbatim>\<open>Scripts/generate_app_icons.py\<close>\<close>

text \<open>\<^verbatim>\<open>int(start + (end - start) * progress)\<close>, the interpolation of one channel.\<close>

definition interpolate :: "int \<Rightarrow> int \<Rightarrow> real \<Rightarrow> int" where
  "interpolate start_c end_c progress =
     py_int (real_of_int start_c + real_of_int (end_c - start_c) * progress)"

text \<open>The opacity of a gradient step:
  \<^verbatim>\<open>int(start_color[3] + (end_color[3] - start_color[3]) * progress) if len(start_color) > 3 else 255\<close>.\<close>

definition gradient_alpha :: "color \<Rightarrow> color \<Rightarrow> real \<Rightarrow> exc + int" where
  "gradient_alpha start_color end_color progress =
     (case start_color of
        Rgb r g b \<Rightarrow> Inr 255
      | Rgba r g b a \<Rightarrow>
          (case end_color of
             Rgb r' g' b' \<Rightarrow> Inl IndexError
           | Rgba r' g' b' a' \<Rightarrow> Inr (interpolate a a' progress)))"

text \<open>The bounding box \<^verbatim>\<open>[cx - r, cy - r, cx + r, cy + r]\<close>.\<close>

definition circle_bbox :: "int \<times> int \<Rightarrow> real \<Rightarrow> real \<times> real \<times> real \<times> real" where
  "circle_bbox center r =
     (case center of (cx, cy) \<Rightarrow>
        (real_of_int cx - r, real_of_int cy - r, real_of_int cx + r, real_of_int cy + r))"

text \<open>The body of \<^verbatim>\<open>for i in range(steps)\<close> in \<^verbatim>\<open>create_radial_gradient\<close>.\<close>

definition gradient_body ::
  "nat \<Rightarrow> int \<times> int \<Rightarrow> int \<Rightarrow> int \<Rightarrow> color \<Rightarrow> color \<Rightarrow> int \<Rightarrow> int \<Rightarrow> store \<Rightarrow> exc + store" where
  "gradient_body img center start_radius end_radius start_color end_color steps i st =
     (case py_div (real_of_int i) (real_of_int steps) of
        Inl e \<Rightarrow> Inl e
      | Inr progress \<Rightarrow>
          (let radius = real_of_int start_radius +
                 real_of_int (end_radius - start_radius) * progress;
               r = interpolate (red start_color) (red end_color) progress;
               g = interpolate (green start_color) (green end_color) progress;
               b = interpolate (blue start_color) (blue end_color) progress
           in (case gradient_alpha start_color end_color progress of
                 Inl e \<Rightarrow> Inl e
               | Inr a \<Rightarrow>
                   draw_ellipse img (circle_bbox center radius) (Some (Rgba r g b a)) None 1 st)))"

text \<open>\<^verbatim>\<open>create_radial_gradient\<close>; both radii are integers at every call, so that
  \<^verbatim>\<open>steps = int(end_radius - start_radius)\<close> is their difference.\<close>

definition create_radial_gradient ::
  "nat \<Rightarrow> int \<times> int \<Rightarrow> int \<Rightarrow> int \<Rightarrow> color \<Rightarrow> color \<Rightarrow> store \<Rightarrow> exc + nat \<times> store" where
  "create_radial_gradient sz center start_radius end_radius start_color end_color st =
     (case Image_new Mode_RGBA (sz, sz) st of (img, st1) \<Rightarrow>
        (let steps = end_radius - start_radius
         in (case for_each
                    (gradient_body img center start_radius end_radius start_color end_color steps)
                    (py_range steps) st1 of
               Inl e \<Rightarrow> Inl e
             | Inr st2 \<Rightarrow> Inr (img, st2))))"

text \<open>
  The scaled parameters of \<^verbatim>\<open>draw_breathing_circles_icon\<close>, each as the source computes
  it from \<^verbatim>\<open>scale = size / 1024.0\<close>: the two radii of the outer glow before \<^verbatim>\<open>int\<close>, the
  list \<^verbatim>\<open>circles\<close> of (radius, width, colour), the list \<^verbatim>\<open>gradient_steps\<close>, the radius
  \<^verbatim>\<open>40 * scale\<close> of the centre circle before \<^verbatim>\<open>int\<close>, and the stroke width
  \<^verbatim>\<open>max(1, int(2 * scale))\<close> with its unrounded value \<^verbatim>\<open>2 * scale\<close>.
\<close>

definition scale_of :: "nat \<Rightarrow> real" where
  "scale_of sz = real sz / 1024"

definition glow_radii :: "real \<Rightarrow> real \<times> real" where
  "glow_radii scale = (100 * scale, 300 * scale)"

definition circles :: "real \<Rightarrow> (real \<times> real \<times> color) list" where
  "circles scale =
     [(400 * scale, 3 * scale, with_alpha SOFT_PURPLE 102),
      (330 * scale, 4 * scale, with_alpha SOFT_PURPLE 128),
      (260 * scale, 5 * scale, with_alpha CALM_BLUE 153),
      (190 * scale, 6 * scale, with_alpha CALM_BLUE 179),
      (120 * scale, 7 * scale, with_alpha CALM_BLUE 204)]"

definition gradient_steps :: "real \<Rightarrow> (real \<times> color) list" where
  "gradient_steps scale =
     [(5 * scale, Rgba 255 255 255 230),
      (25 * scale, with_alpha CALM_BLUE 204),
      (40 * scale, with_alpha SERENE_PURPLE 179)]"

definition center_radius_real :: "real \<Rightarrow> real" where
  "center_radius_real scale = 40 * scale"

definition stroke_real :: "real \<Rightarrow> real" where
  "stroke_real scale = 2 * scale"

definition stroke_width :: "real \<Rightarrow> int" where
  "stroke_width scale = max 1 (py_int (stroke_real scale))"

text \<open>The background pass, \<^verbatim>\<open>for y in range(size)\<close>: the colour of row \<open>y\<close> and the line
  drawn across it.\<close>

definition gradient_color :: "real \<Rightarrow> color" where
  "gradient_color progress =
     (case LIGHTER_INDIGO of (r0, g0, b0) \<Rightarrow>
      (case DEEP_INDIGO of (r1, g1, b1) \<Rightarrow>
         Rgb (interpolate r0 r1 progress) (interpolate g0 g1 progress)
             (interpolate b0 b1 progress)))"

definition background_color :: "nat \<Rightarrow> int \<Rightarrow> exc + color" where
  "background_color sz y =
     (case py_div (real_of_int y) (real sz) of
        Inl e \<Rightarrow> Inl e
      | Inr progress \<Rightarrow> Inr (gradient_color progress))"

definition background_body :: "nat \<Rightarrow> nat \<Rightarrow> int \<Rightarrow> store \<Rightarrow> exc + store" where
  "background_body img sz y st =
     (case background_color sz y of
        Inl e \<Rightarrow> Inl e
      | Inr fill \<Rightarrow> Inr (draw_line img (0, y) (int sz, y) fill st))"

definition background_pass :: "nat \<Rightarrow> nat \<Rightarrow> store \<Rightarrow> exc + store" where
  "background_pass img sz st = for_each (background_body img sz) (py_range (int sz)) st"

text \<open>The concentric circles: \<^verbatim>\<open>for radius, width, color in circles\<close> and, inside,
  \<^verbatim>\<open>for i in range(int(width))\<close>.\<close>

definition outline_body :: "nat \<Rightarrow> int \<times> int \<Rightarrow> real \<Rightarrow> color \<Rightarrow> int \<Rightarrow> store \<Rightarrow> exc + store" where
  "outline_body img center radius outline i st =
     (let r = radius - real_of_int i / 2
      in draw_ellipse img (circle_bbox center r) None (Some outline) 1 st)"

definition circle_body :: "nat \<Rightarrow> int \<times> int \<Rightarrow> real \<times> real \<times> color \<Rightarrow> store \<Rightarrow> exc + store" where
  "circle_body img center circle st =
     (case circle of (radius, wd, outline) \<Rightarrow>
        for_each (outline_body img center radius outline) (py_range (py_int wd)) st)"

text \<open>The inner gradient layers, \<^verbatim>\<open>for i in range(len(gradient_steps) - 1)\<close>; both
  indices are within the list.\<close>

definition inner_gradient_body ::
  "nat \<Rightarrow> nat \<Rightarrow> int \<times> int \<Rightarrow> (real \<times> color) list \<Rightarrow> int \<Rightarrow> store \<Rightarrow> exc + store" where
  "inner_gradient_body img sz center steps i st =
     (case steps ! nat i of (start_r, start_c) \<Rightarrow>
      (case steps ! nat (i + 1) of (end_r, end_c) \<Rightarrow>
        (case create_radial_gradient sz center (py_int start_r) (py_int end_r)
                start_c end_c st of
           Inl e \<Rightarrow> Inl e
         | Inr (gradient, st') \<Rightarrow> Inr (paste img gradient (0, 0) gradient st'))))"

text \<open>The stroke of the centre circle, \<^verbatim>\<open>for i in range(stroke_width)\<close>.\<close>

definition stroke_body :: "nat \<Rightarrow> int \<times> int \<Rightarrow> int \<Rightarrow> int \<Rightarrow> store \<Rightarrow> exc + store" where
  "stroke_body img center center_radius i st =
     (let r = real_of_int center_radius - real_of_int i / 2
      in draw_ellipse img (circle_bbox center r) None (Some (with_alpha CALM_BLUE 255)) 1 st)"

text \<open>\<^verbatim>\<open>draw_breathing_circles_icon(size)\<close>: the result is the index of the image returned
  and the store after the call.\<close>

definition draw_breathing_circles_icon :: "nat \<Rightarrow> store \<Rightarrow> exc + nat \<times> store" where
  "draw_breathing_circles_icon sz st =
     (case Image_new Mode_RGB (sz, sz) st of (img, st1) \<Rightarrow>
     (case background_pass img sz st1 of
        Inl e \<Rightarrow> Inl e
      | Inr st2 \<Rightarrow>
     (let scale = scale_of sz;
          center = (int sz div 2, int sz div 2);
          glow_start = with_alpha SERENE_PURPLE 76;
          glow_end = Rgba 0 0 0 0
      in (case create_radial_gradient sz center
                 (py_int (fst (glow_radii scale))) (py_int (snd (glow_radii scale)))
                 glow_start glow_end st2 of
        Inl e \<Rightarrow> Inl e
      | Inr (glow, st3) \<Rightarrow>
     (let st4 = paste img glow (0, 0) glow st3
      in (case for_each (circle_body img center) (circles scale) st4 of
        Inl e \<Rightarrow> Inl e
      | Inr st5 \<Rightarrow>
     (let center_radius = py_int (center_radius_real scale)
      in (case for_each (inner_gradient_body img sz center (gradient_steps scale))
                 (py_range (int (length (gradient_steps scale)) - 1)) st5 of
        Inl e \<Rightarrow> Inl e
      | Inr st6 \<Rightarrow>
     (case for_each (stroke_body img center center_radius)
             (py_range (stroke_width scale)) st6 of
        Inl e \<Rightarrow> Inl e
      | Inr st7 \<Rightarrow> Inr (img, st7))))))))))"

subsection \<open>The renderer of \<^verbatim>\<open>generate_icons.py\<close>\<close>

text \<open>The colour of pixel \<open>(x, y)\<close> in the radial background, in double precision:
  \<^verbatim>\<open>distance = math.sqrt((x - center_x)**2 + (y - center_y)**2)\<close> (the argument is an
  integer, converted on the call), \<^verbatim>\<open>ratio = distance / max_radius\<close> and the three channels
  \<^verbatim>\<open>int(100 + ratio * 80)\<close>, \<^verbatim>\<open>int(150 - ratio * 70)\<close>, \<^verbatim>\<open>int(220 - ratio * 20)\<close>.\<close>

definition zen_pixel :: "int \<Rightarrow> int \<Rightarrow> real \<Rightarrow> int \<Rightarrow> int \<Rightarrow> exc + color" where
  "zen_pixel center_x center_y max_radius x y =
     (let distance = double_sqrt (py_float ((x - center_x)\<^sup>2 + (y - center_y)\<^sup>2))
      in (case double_div distance max_radius of
            Inl e \<Rightarrow> Inl e
          | Inr ratio \<Rightarrow>
              Inr (Rgb (py_int (double_add 100 (double_mul ratio 80)))
                       (py_int (double_sub 150 (double_mul ratio 70)))
                       (py_int (double_sub 220 (double_mul ratio 20))))))"

definition pixel_body :: "nat \<Rightarrow> int \<Rightarrow> int \<Rightarrow> real \<Rightarrow> int \<Rightarrow> int \<Rightarrow> store \<Rightarrow> exc + store" where
  "pixel_body img center_x center_y max_radius y x st =
     (case zen_pixel center_x center_y max_radius x y of
        Inl e \<Rightarrow> Inl e
      | Inr c \<Rightarrow> Inr (putpixel img (x, y) c st))"

definition row_body :: "nat \<Rightarrow> nat \<Rightarrow> int \<Rightarrow> int \<Rightarrow> real \<Rightarrow> int \<Rightarrow> store \<Rightarrow> exc + store" where
  "row_body img sz center_x center_y max_radius y st =
     for_each (pixel_body img center_x center_y max_radius y) (py_range (int sz)) st"

definition zen_background_pass :: "nat \<Rightarrow> nat \<Rightarrow> store \<Rightarrow> exc + store" where
  "zen_background_pass img sz st =
     (let center_x = int sz div 2;
          center_y = int sz div 2;
          max_radius = double_sqrt (py_float (center_x\<^sup>2 + center_y\<^sup>2))
      in for_each (row_body img sz center_x center_y max_radius) (py_range (int sz)) st)"

text \<open>The scaled parameters of \<^verbatim>\<open>create_zen_icon\<close>: \<^verbatim>\<open>max_circle_radius = size * 0.4\<close>,
  the radius \<^verbatim>\<open>max_circle_radius * (i + 1) / num_circles\<close> of ring \<open>i\<close>, the outline width
  \<^verbatim>\<open>max(1, size // 100)\<close> and \<^verbatim>\<open>center_radius = size * 0.08\<close>.\<close>

definition max_circle_radius :: "nat \<Rightarrow> real" where
  "max_circle_radius sz = real sz * (4 / 10)"

definition ring_radius :: "nat \<Rightarrow> int \<Rightarrow> int \<Rightarrow> real" where
  "ring_radius sz num_circles i =
     max_circle_radius sz * real_of_int (i + 1) / real_of_int num_circles"

definition ring_width :: "nat \<Rightarrow> int" where
  "ring_width sz = max 1 (int sz div 100)"

definition zen_center_radius :: "nat \<Rightarrow> real" where
  "zen_center_radius sz = real sz * (8 / 100)"

text \<open>The body of \<^verbatim>\<open>for i in range(num_circles)\<close>.\<close>

definition ring_body :: "nat \<Rightarrow> nat \<Rightarrow> int \<times> int \<Rightarrow> int \<Rightarrow> int \<Rightarrow> store \<Rightarrow> exc + store" where
  "ring_body img sz center num_circles i st =
     (let radius = ring_radius sz num_circles i;
          opacity = py_int (255 * (1 - real_of_int i / real_of_int num_circles) * (1 / 2))
      in draw_ellipse img (circle_bbox center radius)
           None (Some (Rgba 255 255 255 opacity)) (ring_width sz) st)"

text \<open>\<^verbatim>\<open>create_zen_icon(size)\<close>.\<close>

definition create_zen_icon :: "nat \<Rightarrow> store \<Rightarrow> exc + nat \<times> store" where
  "create_zen_icon sz st =
     (case Image_new Mode_RGB (sz, sz) st of (img, st1) \<Rightarrow>
     (case zen_background_pass img sz st1 of
        Inl e \<Rightarrow> Inl e
      | Inr st2 \<Rightarrow>
     (let center = (int sz div 2, int sz div 2);
          num_circles = 5
      in (case for_each (ring_body img sz center num_circles) (py_range num_circles) st2 of
        Inl e \<Rightarrow> Inl e
      | Inr st3 \<Rightarrow>
     (case draw_ellipse img (circle_bbox center (zen_center_radius sz))
             (Some (Rgba 255 255 255 230)) None 1 st3 of
        Inl e \<Rightarrow> Inl e
      | Inr st4 \<Rightarrow> Inr (img, st4))))))"

subsection \<open>Notions for the statements about the writers\<close>

text \<open>The state after the first \<open>k\<close> iterations of the icon loop of
  \<^verbatim>\<open>Scripts/generate_app_icons.py\<close>.\<close>

definition after_icons ::
  "(nat \<Rightarrow> exc + 'img) \<Rightarrow> 'img world \<Rightarrow> string \<Rightarrow> nat \<Rightarrow> run_state" where
  "after_icons render w output_dir k =
     icon_loop render w (take k ICON_SIZES) (initial_state output_dir)"

text \<open>The exception that the iteration for an entry raises inside its \<^verbatim>\<open>try\<close>, if any,
  the line the iteration prints, and the line of the manifest step.\<close>

definition entry_error :: "(nat \<Rightarrow> exc + 'img) \<Rightarrow> 'img world \<Rightarrow> string \<times> nat \<Rightarrow> exc option" where
  "entry_error render w entry =
     (case entry of (filename, pixel_size) \<Rightarrow> render_and_save render w filename pixel_size)"

definition entry_line :: "(nat \<Rightarrow> exc + 'img) \<Rightarrow> 'img world \<Rightarrow> string \<times> nat \<Rightarrow> line" where
  "entry_line render w entry =
     (case entry_error render w entry of
        None \<Rightarrow> Icon_ok (fst entry) (snd entry)
      | Some e \<Rightarrow> Icon_failed (fst entry) e)"

definition contents_line :: "'img world \<Rightarrow> line" where
  "contents_line w = (case dump w CONTENTS_JSON of None \<Rightarrow> Contents_ok | Some e \<Rightarrow> Contents_failed e)"

text \<open>The entries whose iteration raises, and those whose iteration does not.\<close>

definition failures :: "(nat \<Rightarrow> exc + 'img) \<Rightarrow> 'img world \<Rightarrow> (string \<times> nat) list \<Rightarrow> (string \<times> nat) list" where
  "failures render w entries = filter (\<lambda>entry. entry_error render w entry \<noteq> None) entries"

definition successes :: "(nat \<Rightarrow> exc + 'img) \<Rightarrow> 'img world \<Rightarrow> (string \<times> nat) list \<Rightarrow> (string \<times> nat) list" where
  "successes render w entries = filter (\<lambda>entry. entry_error render w entry = None) entries"

text \<open>The same for an entry of \<^verbatim>\<open>ICON_SPECS\<close> in \<^verbatim>\<open>generate_icons.py\<close>: the exception of
  its iteration and the line \<^verbatim>\<open>Creating ...\<close> printed before the rendering.\<close>

definition spec_error :: "(int \<Rightarrow> exc + 'img) \<Rightarrow> 'img world \<Rightarrow> rat \<times> rat \<times> string \<Rightarrow> exc option" where
  "spec_error render w spec =
     (case spec of (base_size, scale, filename) \<Rightarrow>
        render_and_save render w filename (py_int (base_size * scale)))"

definition creating_line :: "rat \<times> rat \<times> string \<Rightarrow> line" where
  "creating_line spec =
     (case spec of (base_size, scale, filename) \<Rightarrow> Creating filename (py_int (base_size * scale)))"

text \<open>Concrete renderers and worlds for the instances below: a renderer that always
  succeeds (its image is a stand-in), a world where everything succeeds, one where a single
  file cannot be saved, and one where no file can be written.\<close>

definition ok_render :: "'n \<Rightarrow> exc + 'n" where
  "ok_render pixel_size = Inr pixel_size"

definition healthy :: "'img world" where
  "healthy = \<lparr>mkdir = None, save = (\<lambda>icon filename. None), dump = (\<lambda>c. None)\<rparr>"

definition one_bad_file :: "'img world" where
  "one_bad_file =
     \<lparr>mkdir = None,
      save = (\<lambda>icon filename.
        if filename = ''icon-29.png'' then Some (OSError ''Permission denied'') else None),
      dump = (\<lambda>c. None)\<rparr>"

definition full_disk :: "'img world" where
  "full_disk =
     \<lparr>mkdir = None,
      save = (\<lambda>icon filename. Some (OSError ''No space left on device'')),
      dump = (\<lambda>c. Some (OSError ''No space left on device''))\<rparr>"

subsection \<open>Notions for the statements about the renderers\<close>

text \<open>
  The row colour as the specification words it: each channel is the floor of
  \<open>start + (end - start) * t\<close> with \<open>start\<close> from \<^verbatim>\<open>LIGHTER_INDIGO\<close>, \<open>end\<close> from
  \<^verbatim>\<open>DEEP_INDIGO\<close> and \<open>t = y / n\<close>.
\<close>

definition vertical_gradient_spec :: "nat \<Rightarrow> int \<Rightarrow> color" where
  "vertical_gradient_spec sz y =
     (let t = real_of_int y / real sz
      in (case LIGHTER_INDIGO of (r0, g0, b0) \<Rightarrow>
         (case DEEP_INDIGO of (r1, g1, b1) \<Rightarrow>
            Rgb \<lfloor>real_of_int r0 + real_of_int (r1 - r0) * t\<rfloor>
                \<lfloor>real_of_int g0 + real_of_int (g1 - g0) * t\<rfloor>
                \<lfloor>real_of_int b0 + real_of_int (b1 - b0) * t\<rfloor>)))"

text \<open>
  The radial colour as the specification words it: \<open>t\<close> is the distance of \<open>(x, y)\<close>
  from the centre \<open>(n div 2, n div 2)\<close> over the distance of the centre from the corner
  \<open>(0, 0)\<close>, and the channels are the floors of \<open>100 + 80 t\<close>, \<open>150 - 70 t\<close>,
  \<open>220 - 20 t\<close>.
\<close>

definition radial_ratio :: "nat \<Rightarrow> int \<Rightarrow> int \<Rightarrow> real" where
  "radial_ratio sz x y =
     sqrt (real_of_int ((x - int sz div 2)\<^sup>2 + (y - int sz div 2)\<^sup>2)) /
     sqrt (real_of_int ((int sz div 2)\<^sup>2 + (int sz div 2)\<^sup>2))"

definition radial_color :: "nat \<Rightarrow> int \<Rightarrow> int \<Rightarrow> color" where
  "radial_color sz x y =
     Rgb \<lfloor>100 + 80 * radial_ratio sz x y\<rfloor> \<lfloor>150 - 70 * radial_ratio sz x y\<rfloor>
         \<lfloor>220 - 20 * radial_ratio sz x y\<rfloor>"

text \<open>
  The radial colour as the code computes it, in closed form: \<open>zen_ratio\<close> is the double
  \<^verbatim>\<open>ratio\<close> of pixel \<open>(x, y)\<close> in an image of size \<open>sz\<close>, and \<open>zen_color\<close> the tuple handed to
  \<^verbatim>\<open>putpixel\<close>. A real \<open>v\<close> is clear of the integers when it is at least \<open>1 / 2 ^ 43\<close> away from
  the integers on both sides of it.
\<close>

definition zen_ratio :: "nat \<Rightarrow> int \<Rightarrow> int \<Rightarrow> real" where
  "zen_ratio sz x y =
     round_double
       (double_sqrt (py_float ((x - int sz div 2)\<^sup>2 + (y - int sz div 2)\<^sup>2)) /
        double_sqrt (py_float ((int sz div 2)\<^sup>2 + (int sz div 2)\<^sup>2)))"

definition zen_color :: "nat \<Rightarrow> int \<Rightarrow> int \<Rightarrow> color" where
  "zen_color sz x y =
     Rgb (py_int (double_add 100 (double_mul (zen_ratio sz x y) 80)))
         (py_int (double_sub 150 (double_mul (zen_ratio sz x y) 70)))
         (py_int (double_sub 220 (double_mul (zen_ratio sz x y) 20)))"

definition clear_of_integers :: "real \<Rightarrow> bool" where
  "clear_of_integers v \<longleftrightarrow>
     real_of_int \<lfloor>v\<rfloor> + 1 / 2 ^ 43 \<le> v \<and> v + 1 / 2 ^ 43 < real_of_int \<lfloor>v\<rfloor> + 1"

text \<open>
  What a call of a renderer hands back: the image behind the returned index, or the
  exception. \<open>render_twice\<close> calls a renderer twice in a row on the same store and gives
  the first image as it is after the first call, the first image as it is after the
  second call, and the second image.
\<close>

definition returned_image :: "exc + nat \<times> store \<Rightarrow> exc + image" where
  "returned_image r = (case r of Inl e \<Rightarrow> Inl e | Inr (img, st) \<Rightarrow> Inr (st ! img))"

definition render_twice ::
  "(store \<Rightarrow> exc + nat \<times> store) \<Rightarrow> store \<Rightarrow> exc + image \<times> image \<times> image" where
  "render_twice render st =
     (case render st of
        Inl e \<Rightarrow> Inl e
      | Inr (first, st1) \<Rightarrow>
          (case render st1 of
             Inl e \<Rightarrow> Inl e
           | Inr (second, st2) \<Rightarrow> Inr (st1 ! first, st2 ! first, st2 ! second)))"

text \<open>
  The integers that \<^verbatim>\<open>draw_breathing_circles_icon\<close> obtains by rounding its scaled
  parameters, in the order of the source: the two glow radii, \<^verbatim>\<open>int(width)\<close> of the five
  circles, \<^verbatim>\<open>center_radius\<close>, the three radii of the gradient layers, and the clamped
  stroke width.
\<close>

definition rounded_parameters :: "nat \<Rightarrow> int list" where
  "rounded_parameters sz =
     (let scale = scale_of sz
      in [py_int (fst (glow_radii scale)), py_int (snd (glow_radii scale))] @
         map (\<lambda>(radius, wd, outline). py_int wd) (circles scale) @
         [py_int (center_radius_real scale)] @
         map (\<lambda>(r, c). py_int r) (gradient_steps scale) @
         [stroke_width scale])"

subsection \<open>Notions for the proofs about the renderers\<close>

text \<open>
  \<open>extend img new st\<close> appends the calls \<open>new\<close> to image \<open>img\<close> of the store. A store
  transformer \<open>draws\<close> when, for every image of every store, all it does is to append
  one fixed list of calls to that image and one fixed list of new images to the store.
\<close>

fun append_calls :: "draw_op list \<Rightarrow> image \<Rightarrow> image" where
  "append_calls new (Image m w h cs) = Image m w h (cs @ new)"

definition extend :: "nat \<Rightarrow> draw_op list \<Rightarrow> store \<Rightarrow> store" where
  "extend img new st = st[img := append_calls new (st ! img)]"

definition draws :: "(nat \<Rightarrow> store \<Rightarrow> exc + store) \<Rightarrow> bool" where
  "draws F \<longleftrightarrow>
     (\<exists>new extra. \<forall>img st. img < length st \<longrightarrow> F img st = Inr (extend img new st @ extra))"

text \<open>The calls of the two background passes, with the colours in closed form.\<close>

definition background_calls :: "nat \<Rightarrow> draw_op list" where
  "background_calls sz =
     map (\<lambda>y. Line (0, y) (int sz, y) (gradient_color (real_of_int y / real sz)))
       (py_range (int sz))"

definition zen_background_calls :: "nat \<Rightarrow> draw_op list" where
  "zen_background_calls sz =
     concat (map (\<lambda>y. map (\<lambda>x. Putpixel (x, y) (zen_color sz x y)) (py_range (int sz)))
       (py_range (int sz)))"

subsection \<open>Theorems about the tables\<close>

lemma length_ICON_SIZES: "length ICON_SIZES = 18"
  by (simp add: ICON_SIZES_def)

lemma length_ICON_SPECS: "length ICON_SPECS = 18"
  by (simp add: ICON_SPECS_def)

text \<open>
  Claim C3. The manifest of \<^verbatim>\<open>Scripts/generate_app_icons.py\<close> has as many \<^verbatim>\<open>images\<close>
  records as the size table has entries, and the filenames of the records, in order, are
  the filenames of the size table, in order.
\<close>

theorem manifest_matches_size_table:
  "length (images CONTENTS_JSON) = length ICON_SIZES \<and>
   map img_filename (images CONTENTS_JSON) = map fst ICON_SIZES"
  by (simp add: CONTENTS_JSON_def ICON_SIZES_def)

text \<open>
  Claim C9. Both size tables have 18 entries; position by position the filenames agree and
  the pixel size of \<^verbatim>\<open>ICON_SIZES\<close> is \<^verbatim>\<open>int(base_size * scale)\<close> of \<^verbatim>\<open>ICON_SPECS\<close>.
\<close>

theorem size_tables_equivalent:
  "length ICON_SIZES = 18 \<and> length ICON_SPECS = 18 \<and>
   map fst ICON_SIZES = map (\<lambda>(base_size, scale, filename). filename) ICON_SPECS \<and>
   map (\<lambda>(filename, pixel_size). int pixel_size) ICON_SIZES = map pixel_size_of ICON_SPECS"
  by (simp add: ICON_SIZES_def ICON_SPECS_def pixel_size_of_def py_int_def)

subsection \<open>Theorems about the writers\<close>

lemma icon_step_counts:
  "(success_count (icon_step render w entry s) = success_count s + 1 \<and>
    fail_count (icon_step render w entry s) = fail_count s) \<or>
   (success_count (icon_step render w entry s) = success_count s \<and>
    fail_count (icon_step render w entry s) = fail_count s + 1)"
  by (cases entry) (simp add: icon_step_def split: option.splits)

lemma icon_loop_append:
  "icon_loop render w (xs @ ys) s = icon_loop render w ys (icon_loop render w xs s)"
  by (induction xs arbitrary: s) simp_all

lemma icon_loop_counts:
  "success_count (icon_loop render w xs s) + fail_count (icon_loop render w xs s) =
     success_count s + fail_count s + int (length xs) \<and>
   success_count s \<le> success_count (icon_loop render w xs s) \<and>
   fail_count s \<le> fail_count (icon_loop render w xs s)"
proof (induction xs arbitrary: s)
  case Nil
  show ?case by simp
next
  case (Cons x xs)
  from icon_step_counts [of render w x s] Cons.IH [of "icon_step render w x s"]
  show ?case by auto
qed

lemma icon_step_cases:
  "icon_step render w entry s =
     (case entry_error render w entry of
        None \<Rightarrow> s\<lparr>success_count := success_count s + 1,
                    printed := printed s @ [entry_line render w entry]\<rparr>
      | Some e \<Rightarrow> s\<lparr>fail_count := fail_count s + 1,
                     printed := printed s @ [entry_line render w entry]\<rparr>)"
  by (cases entry) (simp add: icon_step_def entry_error_def entry_line_def split: option.splits)

lemma icon_loop_printed:
  "printed (icon_loop render w xs s) = printed s @ map (entry_line render w) xs"
  by (induction xs arbitrary: s) (simp_all add: icon_step_cases split: option.splits)

lemma icon_loop_fail:
  "fail_count (icon_loop render w xs s) = fail_count s + int (length (failures render w xs))"
  by (induction xs arbitrary: s) (simp_all add: icon_step_cases failures_def split: option.splits)

lemma icon_loop_success:
  "success_count (icon_loop render w xs s) = success_count s + int (length (successes render w xs))"
  by (induction xs arbitrary: s) (simp_all add: icon_step_cases successes_def split: option.splits)

lemma spec_loop_all_ok:
  "\<forall>p \<in> set specs. spec_error render w p = None \<Longrightarrow>
   spec_loop render w specs out = (out @ map creating_line specs, None)"
  by (induction specs arbitrary: out)
     (auto simp: spec_error_def creating_line_def Let_def split: option.splits prod.splits)

lemma spec_loop_first_failure:
  "\<forall>p \<in> set pre. spec_error render w p = None \<Longrightarrow> spec_error render w spec = Some e \<Longrightarrow>
   spec_loop render w (pre @ spec # post) out = (out @ map creating_line (pre @ [spec]), Some e)"
  by (induction pre arbitrary: out)
     (auto simp: spec_error_def creating_line_def Let_def split: option.splits prod.splits)

text \<open>
  Claim C1, as stated for both writers, fails for \<^verbatim>\<open>generate_icons.py\<close>, whose loop has
  no handler: with no space left on the device the first \<^verbatim>\<open>icon.save\<close> raises, the
  exception leaves \<^verbatim>\<open>generate_all_icons\<close>, one entry of eighteen has been started and no
  summary is printed.
\<close>

theorem zen_writer_stops_at_first_failure:
  "generate_all_icons_zen ok_render (full_disk :: int world) ''out'' =
     ([Generating, Creating ''icon-20@2x.png'' 40], Some (OSError ''No space left on device''))"
  by (simp add: generate_all_icons_zen_def ICON_SPECS_def full_disk_def ok_render_def
      render_and_save_def py_int_def)

text \<open>
  Claim C1, amended. In \<^verbatim>\<open>Scripts/generate_app_icons.py\<close>, once the output directory
  exists, whatever the renderer and the file system do: the run returns normally, every
  entry of the size table gets its iteration and its line, in table order, each failing
  iteration is counted in \<^verbatim>\<open>fail_count\<close> and each other one in \<^verbatim>\<open>success_count\<close>, and
  the summary with the tally is printed last. In \<^verbatim>\<open>generate_icons.py\<close> the run handles
  every entry and prints its summary when no iteration raises; otherwise it ends with
  the exception of the first failing entry, having started no later entry and printed
  no summary.
\<close>

theorem writer_failure_handling:
  "(mkdir w = None \<longrightarrow>
      (\<exists>s. generate_all_icons render w output_dir = (s, None) \<and>
        success_count s = int (length (successes render w ICON_SIZES)) \<and>
        fail_count s = int (length (failures render w ICON_SIZES)) +
          (if dump w CONTENTS_JSON = None then 0 else 1) \<and>
        printed s =
          [Title, Rule, Design, Output output_dir, Blank] @
          map (entry_line render w) ICON_SIZES @
          [contents_line w] @
          [Blank, Rule, Complete, Success_tally (success_count s) (length ICON_SIZES)] @
          (if fail_count s > 0 then [Failed_tally (fail_count s)] else []) @
          [Blank, Ready])) \<and>
   (mkdir w2 = None \<and> (\<forall>p \<in> set ICON_SPECS. spec_error render2 w2 p = None) \<longrightarrow>
      generate_all_icons_zen render2 w2 output_dir =
        (Generating # map creating_line ICON_SPECS @
           [Generated (length ICON_SPECS), Saved_to output_dir], None)) \<and>
   (mkdir w3 = None \<and> ICON_SPECS = pre @ spec # post \<and>
    (\<forall>p \<in> set pre. spec_error render3 w3 p = None) \<and> spec_error render3 w3 spec = Some e \<longrightarrow>
      generate_all_icons_zen render3 w3 output_dir =
        (Generating # map creating_line (pre @ [spec]), Some e))"
proof (intro conjI impI)
  assume m: "mkdir w = None"
  let ?s = "print_summary (write_contents w (icon_loop render w ICON_SIZES (initial_state output_dir)))"
  have run: "generate_all_icons render w output_dir = (?s, None)"
    by (simp add: generate_all_icons_def m Let_def)
  have succ: "success_count ?s = int (length (successes render w ICON_SIZES))"
    by (simp add: print_summary_def write_contents_def icon_loop_success initial_state_def
        split: option.splits)
  have fail: "fail_count ?s = int (length (failures render w ICON_SIZES)) +
      (if dump w CONTENTS_JSON = None then 0 else 1)"
    by (simp add: print_summary_def write_contents_def icon_loop_fail initial_state_def
        split: option.splits)
  have out: "printed ?s =
      [Title, Rule, Design, Output output_dir, Blank] @
      map (entry_line render w) ICON_SIZES @
      [contents_line w] @
      [Blank, Rule, Complete, Success_tally (success_count ?s) (length ICON_SIZES)] @
      (if fail_count ?s > 0 then [Failed_tally (fail_count ?s)] else []) @
      [Blank, Ready]"
    by (simp add: print_summary_def write_contents_def icon_loop_printed initial_state_def
        contents_line_def split: option.splits)
  from run succ fail out
  show "\<exists>s. generate_all_icons render w output_dir = (s, None) \<and>
        success_count s = int (length (successes render w ICON_SIZES)) \<and>
        fail_count s = int (length (failures render w ICON_SIZES)) +
          (if dump w CONTENTS_JSON = None then 0 else 1) \<and>
        printed s =
          [Title, Rule, Design, Output output_dir, Blank] @
          map (entry_line render w) ICON_SIZES @
          [contents_line w] @
          [Blank, Rule, Complete, Success_tally (success_count s) (length ICON_SIZES)] @
          (if fail_count s > 0 then [Failed_tally (fail_count s)] else []) @
          [Blank, Ready]"
    by blast
next
  assume a: "mkdir w2 = None \<and> (\<forall>p \<in> set ICON_SPECS. spec_error render2 w2 p = None)"
  then have "spec_loop render2 w2 ICON_SPECS [Generating] =
      ([Generating] @ map creating_line ICON_SPECS, None)"
    using spec_loop_all_ok [of ICON_SPECS render2 w2 "[Generating]"] by blast
  with a show "generate_all_icons_zen render2 w2 output_dir =
        (Generating # map creating_line ICON_SPECS @
           [Generated (length ICON_SPECS), Saved_to output_dir], None)"
    by (simp add: generate_all_icons_zen_def)
next
  assume a: "mkdir w3 = None \<and> ICON_SPECS = pre @ spec # post \<and>
    (\<forall>p \<in> set pre. spec_error render3 w3 p = None) \<and> spec_error render3 w3 spec = Some e"
  then have "spec_loop render3 w3 (pre @ spec # post) [Generating] =
      ([Generating] @ map creating_line (pre @ [spec]), Some e)"
    using spec_loop_first_failure [of pre render3 w3 spec e post "[Generating]"] by blast
  with a show "generate_all_icons_zen render3 w3 output_dir =
        (Generating # map creating_line (pre @ [spec]), Some e)"
    by (simp add: generate_all_icons_zen_def)
qed

theorem writer_failure_handling_witness:
  "mkdir (one_bad_file :: nat world) = None \<and>
   (\<exists>s. generate_all_icons ok_render (one_bad_file :: nat world) ''out'' = (s, None) \<and>
      success_count s = 17 \<and> fail_count s = 1 \<and>
      Icon_failed ''icon-29.png'' (OSError ''Permission denied'') \<in> set (printed s) \<and>
      Success_tally 17 18 \<in> set (printed s) \<and> Failed_tally 1 \<in> set (printed s)) \<and>
   generate_all_icons_zen ok_render (healthy :: int world) ''out'' =
     (Generating # map creating_line ICON_SPECS @ [Generated 18, Saved_to ''out''], None) \<and>
   generate_all_icons_zen ok_render (full_disk :: int world) ''out'' =
     ([Generating, Creating ''icon-20@2x.png'' 40], Some (OSError ''No space left on device''))"
proof -
  have h2: "\<forall>p \<in> set ICON_SPECS. spec_error ok_render (healthy :: int world) p = None"
    by (simp add: ICON_SPECS_def spec_error_def render_and_save_def ok_render_def healthy_def)
  have h3: "ICON_SPECS = [] @ (20, 2, ''icon-20@2x.png'') # tl ICON_SPECS"
    by (simp add: ICON_SPECS_def)
  have h3': "spec_error ok_render (full_disk :: int world) (20, 2, ''icon-20@2x.png'') =
      Some (OSError ''No space left on device'')"
    by (simp add: spec_error_def render_and_save_def ok_render_def full_disk_def)
  have s: "length (successes ok_render (one_bad_file :: nat world) ICON_SIZES) = 17"
    by (simp add: successes_def ICON_SIZES_def entry_error_def render_and_save_def ok_render_def
        one_bad_file_def)
  have f: "length (failures ok_render (one_bad_file :: nat world) ICON_SIZES) = 1"
    by (simp add: failures_def ICON_SIZES_def entry_error_def render_and_save_def ok_render_def
        one_bad_file_def)
  have l: "entry_line ok_render (one_bad_file :: nat world) (''icon-29.png'', 29) =
      Icon_failed ''icon-29.png'' (OSError ''Permission denied'')"
    by (simp add: entry_line_def entry_error_def render_and_save_def ok_render_def
        one_bad_file_def)
  have m: "(''icon-29.png'', 29) \<in> set ICON_SIZES"
    by (simp add: ICON_SIZES_def)
  have d: "dump (one_bad_file :: nat world) CONTENTS_JSON = None" "mkdir (one_bad_file :: nat world) = None"
    "mkdir (healthy :: int world) = None" "mkdir (full_disk :: int world) = None"
    by (simp_all add: one_bad_file_def healthy_def full_disk_def)
  from l m have i: "Icon_failed ''icon-29.png'' (OSError ''Permission denied'') \<in>
      entry_line ok_render (one_bad_file :: nat world) ` set ICON_SIZES"
    by (metis imageI)
  from writer_failure_handling [where w = "one_bad_file :: nat world" and render = ok_render
      and output_dir = "''out''" and ?w2.0 = "healthy :: int world" and ?render2.0 = ok_render
      and ?w3.0 = "full_disk :: int world" and ?render3.0 = ok_render and pre = "[]"
      and spec = "(20, 2, ''icon-20@2x.png'')" and post = "tl ICON_SPECS"
      and e = "OSError ''No space left on device''"]
  show ?thesis
    using h2 h3 h3' s f d i by (auto simp: creating_line_def py_int_def length_ICON_SIZES length_ICON_SPECS)
qed

text \<open>
  Claim C10. In the writer of \<^verbatim>\<open>Scripts/generate_app_icons.py\<close> an iteration adds one
  to exactly one of the two counters; after the icon loop their sum is 18, after the
  manifest step 18 or 19, and the summary changes neither. From zero, through any two
  points \<open>k \<le> j\<close> of the loop, the manifest step and the end of the run, no counter is
  negative and none decreases.
\<close>

theorem counters_invariant:
  assumes "k \<le> j" and "j \<le> length ICON_SIZES" and "mkdir w = None"
  shows
   "((success_count (icon_step render w entry s) = success_count s + 1 \<and>
      fail_count (icon_step render w entry s) = fail_count s) \<or>
     (success_count (icon_step render w entry s) = success_count s \<and>
      fail_count (icon_step render w entry s) = fail_count s + 1)) \<and>
    success_count (after_icons render w output_dir (length ICON_SIZES)) +
      fail_count (after_icons render w output_dir (length ICON_SIZES)) = 18 \<and>
    (success_count (write_contents w (after_icons render w output_dir (length ICON_SIZES))) +
      fail_count (write_contents w (after_icons render w output_dir (length ICON_SIZES))) = 18 \<or>
     success_count (write_contents w (after_icons render w output_dir (length ICON_SIZES))) +
      fail_count (write_contents w (after_icons render w output_dir (length ICON_SIZES))) = 19) \<and>
    fst (generate_all_icons render w output_dir) =
      print_summary (write_contents w (after_icons render w output_dir (length ICON_SIZES))) \<and>
    0 \<le> success_count (after_icons render w output_dir k) \<and>
    success_count (after_icons render w output_dir k) \<le>
      success_count (after_icons render w output_dir j) \<and>
    success_count (after_icons render w output_dir j) \<le>
      success_count (write_contents w (after_icons render w output_dir (length ICON_SIZES))) \<and>
    success_count (fst (generate_all_icons render w output_dir)) =
      success_count (write_contents w (after_icons render w output_dir (length ICON_SIZES))) \<and>
    0 \<le> fail_count (after_icons render w output_dir k) \<and>
    fail_count (after_icons render w output_dir k) \<le>
      fail_count (after_icons render w output_dir j) \<and>
    fail_count (after_icons render w output_dir j) \<le>
      fail_count (write_contents w (after_icons render w output_dir (length ICON_SIZES))) \<and>
    fail_count (fst (generate_all_icons render w output_dir)) =
      fail_count (write_contents w (after_icons render w output_dir (length ICON_SIZES)))"
proof -
  let ?a = "\<lambda>n. after_icons render w output_dir n"
  let ?n = "length ICON_SIZES"
  have init: "success_count (initial_state output_dir) = 0" "fail_count (initial_state output_dir) = 0"
    by (simp_all add: initial_state_def)
  have sum: "success_count (?a ?n) + fail_count (?a ?n) = 18"
    using icon_loop_counts [of render w ICON_SIZES "initial_state output_dir"]
    by (simp add: after_icons_def init length_ICON_SIZES)
  have k0: "0 \<le> success_count (?a k)" "0 \<le> fail_count (?a k)"
    using icon_loop_counts [of render w "take k ICON_SIZES" "initial_state output_dir"]
    by (simp_all add: after_icons_def init)
  have split: "\<And>a b. a \<le> b \<Longrightarrow> b \<le> ?n \<Longrightarrow>
      ?a b = icon_loop render w (drop a (take b ICON_SIZES)) (?a a)"
  proof -
    fix a b :: nat
    assume ab: "a \<le> b" "b \<le> ?n"
    have "take a (take b ICON_SIZES) @ drop a (take b ICON_SIZES) = take b ICON_SIZES"
      by (rule append_take_drop_id)
    moreover have "take a (take b ICON_SIZES) = take a ICON_SIZES"
      using ab by (simp add: min_absorb1)
    ultimately have "take b ICON_SIZES = take a ICON_SIZES @ drop a (take b ICON_SIZES)"
      by simp
    then show "?a b = icon_loop render w (drop a (take b ICON_SIZES)) (?a a)"
      by (metis after_icons_def icon_loop_append)
  qed
  have kj: "success_count (?a k) \<le> success_count (?a j)" "fail_count (?a k) \<le> fail_count (?a j)"
    using icon_loop_counts [of render w "drop k (take j ICON_SIZES)" "?a k"]
      split [OF assms(1) assms(2)] by simp_all
  have jn: "success_count (?a j) \<le> success_count (?a ?n)" "fail_count (?a j) \<le> fail_count (?a ?n)"
    using icon_loop_counts [of render w "drop j (take ?n ICON_SIZES)" "?a j"]
      split [OF assms(2) order_refl] by simp_all
  have wc: "success_count (write_contents w (?a ?n)) = success_count (?a ?n)"
    "fail_count (write_contents w (?a ?n)) = fail_count (?a ?n) \<or>
     fail_count (write_contents w (?a ?n)) = fail_count (?a ?n) + 1"
    by (simp_all add: write_contents_def split: option.splits)
  have gen: "fst (generate_all_icons render w output_dir) = print_summary (write_contents w (?a ?n))"
    by (simp add: generate_all_icons_def assms(3) Let_def after_icons_def)
  have ps: "\<And>t. success_count (print_summary t) = success_count t"
    "\<And>t. fail_count (print_summary t) = fail_count t"
    by (simp_all add: print_summary_def)
  show ?thesis
    using icon_step_counts [of render w entry s] sum k0 kj jn wc gen ps by auto
qed

theorem counters_invariant_witness:
  "(3::nat) \<le> 11 \<and> (11::nat) \<le> length ICON_SIZES \<and> mkdir (one_bad_file :: nat world) = None \<and>
   success_count (after_icons ok_render (one_bad_file :: nat world) ''out'' 3) = 3 \<and>
   fail_count (after_icons ok_render (one_bad_file :: nat world) ''out'' 3) = 0 \<and>
   success_count (after_icons ok_render (one_bad_file :: nat world) ''out'' 11) = 10 \<and>
   fail_count (after_icons ok_render (one_bad_file :: nat world) ''out'' 11) = 1 \<and>
   success_count (after_icons ok_render (one_bad_file :: nat world) ''out'' (length ICON_SIZES)) +
     fail_count (after_icons ok_render (one_bad_file :: nat world) ''out'' (length ICON_SIZES)) = 18"
proof -
  have a: "(3::nat) \<le> 11" by simp
  have b: "(11::nat) \<le> length ICON_SIZES" by (simp add: length_ICON_SIZES)
  have c: "mkdir (one_bad_file :: nat world) = None" by (simp add: one_bad_file_def)
  have v: "success_count (after_icons ok_render (one_bad_file :: nat world) ''out'' 3) = 3"
    "fail_count (after_icons ok_render (one_bad_file :: nat world) ''out'' 3) = 0"
    "success_count (after_icons ok_render (one_bad_file :: nat world) ''out'' 11) = 10"
    "fail_count (after_icons ok_render (one_bad_file :: nat world) ''out'' 11) = 1"
    by (simp_all add: after_icons_def ICON_SIZES_def icon_step_def render_and_save_def
        ok_render_def one_bad_file_def initial_state_def)
  from counters_invariant [OF a b c, of ok_render "(''icon-29.png'', 29)" "initial_state ''out''" "''out''"]
  show ?thesis using a b c v by simp
qed

subsection \<open>Drawing calls on the store\<close>

lemma add_call_append: "add_call c im = append_calls [c] im"
  by (cases im) simp

lemma append_calls_twice: "append_calls bs (append_calls as im) = append_calls (as @ bs) im"
  by (cases im) simp

lemma append_calls_Nil: "append_calls [] im = im"
  by (cases im) simp

lemma draw_on_extend: "draw_on img c st = extend img [c] st"
  by (simp add: draw_on_def extend_def add_call_append)

lemma length_extend: "length (extend img new st) = length st"
  by (simp add: extend_def)

lemma extend_Nil: "extend img [] st = st"
  by (simp add: extend_def append_calls_Nil)

lemma extend_twice:
  "img < length st \<Longrightarrow> extend img bs (extend img as st) = extend img (as @ bs) st"
  by (simp add: extend_def append_calls_twice)

lemma extend_append:
  "img < length st \<Longrightarrow> extend img new (st @ extra) = extend img new st @ extra"
  by (simp add: extend_def nth_append list_update_append)

lemma extend_fresh:
  "extend (length st) new (st @ im # extra) = st @ append_calls new im # extra"
  by (simp add: extend_def)

lemma extend_compose:
  "img < length st \<Longrightarrow>
   extend img bs (extend img as st @ extra) @ extra' = extend img (as @ bs) st @ (extra @ extra')"
  by (simp add: extend_append length_extend extend_twice)

lemma drawsI:
  "(\<And>img st. img < length st \<Longrightarrow> F img st = Inr (extend img new st @ extra)) \<Longrightarrow> draws F"
  unfolding draws_def by blast

lemma draws_then:
  assumes "draws F" and "draws G"
  shows "draws (\<lambda>img st. case F img st of Inl e \<Rightarrow> Inl e | Inr st' \<Rightarrow> G img st')"
proof -
  from assms(1) obtain a ea where
    F: "\<And>img st. img < length st \<Longrightarrow> F img st = Inr (extend img a st @ ea)"
    unfolding draws_def by blast
  from assms(2) obtain b eb where
    G: "\<And>img st. img < length st \<Longrightarrow> G img st = Inr (extend img b st @ eb)"
    unfolding draws_def by blast
  show ?thesis
  proof (rule drawsI [where new = "a @ b" and extra = "ea @ eb"])
    fix img and st :: store
    assume l: "img < length st"
    then have "img < length (extend img a st @ ea)"
      by (simp add: length_extend)
    then show "(case F img st of Inl e \<Rightarrow> Inl e | Inr st' \<Rightarrow> G img st') =
        Inr (extend img (a @ b) st @ (ea @ eb))"
      using l by (simp add: F G extend_compose)
  qed
qed

lemma draws_skip: "draws (\<lambda>img st. Inr st)"
  by (rule drawsI [where new = "[]" and extra = "[]"]) (simp add: extend_Nil)

lemma draws_for_each:
  "(\<And>x. x \<in> set xs \<Longrightarrow> draws (\<lambda>img. body img x)) \<Longrightarrow> draws (\<lambda>img. for_each (body img) xs)"
proof (induction xs)
  case Nil
  show ?case by (simp add: draws_skip)
next
  case (Cons x xs)
  have "draws (\<lambda>img. body img x)" using Cons.prems by simp
  moreover have "draws (\<lambda>img. for_each (body img) xs)" using Cons by simp
  ultimately show ?case
    using draws_then [of "\<lambda>img. body img x" "\<lambda>img. for_each (body img) xs"] by simp
qed

lemma draws_call: "draws (\<lambda>img st. Inr (draw_on img c st))"
  by (rule drawsI [where new = "[c]" and extra = "[]"]) (simp add: draw_on_extend)

lemma draws_ellipse:
  "x0 \<le> x1 \<Longrightarrow> y0 \<le> y1 \<Longrightarrow> draws (\<lambda>img. draw_ellipse img (x0, y0, x1, y1) fill outline wd)"
  by (rule drawsI [where new = "[Ellipse (x0, y0, x1, y1) fill outline wd]" and extra = "[]"])
     (simp add: draw_ellipse_def draw_on_extend)

lemma draws_circle:
  "0 \<le> r \<Longrightarrow> draws (\<lambda>img. draw_ellipse img (circle_bbox center r) fill outline wd)"
  by (cases center) (simp add: circle_bbox_def draws_ellipse)

lemma draws_fresh:
  assumes "draws F"
  shows "\<exists>new extra'. \<forall>st im extra.
    F (length st) (st @ im # extra) = Inr (st @ append_calls new im # (extra @ extra'))"
proof -
  from assms obtain new extra' where
    F: "\<And>img st. img < length st \<Longrightarrow> F img st = Inr (extend img new st @ extra')"
    unfolding draws_def by blast
  have "F (length st) (st @ im # extra) = Inr (st @ append_calls new im # (extra @ extra'))"
    for st im extra
    using F [of "length st" "st @ im # extra"] by (simp add: extend_fresh)
  then show ?thesis by blast
qed

lemma in_py_range: "i \<in> set (py_range n) \<longleftrightarrow> 0 \<le> i \<and> i < n"
  by (auto simp: py_range_def image_iff intro: bexI [of _ "nat i"])

lemma for_each_calls:
  "(\<And>x s. x \<in> set xs \<Longrightarrow> body x s = Inr (draw_on img (f x) s)) \<Longrightarrow> img < length st \<Longrightarrow>
   for_each body xs st = Inr (extend img (map f xs) st)"
proof (induction xs arbitrary: st)
  case Nil
  show ?case by (simp add: extend_Nil)
next
  case (Cons x xs)
  have "body x st = Inr (extend img [f x] st)"
    using Cons.prems(1) [of x st] by (simp add: draw_on_extend)
  moreover have "for_each body xs (extend img [f x] st) =
      Inr (extend img (map f xs) (extend img [f x] st))"
    using Cons.IH [of "extend img [f x] st"] Cons.prems by (simp add: length_extend)
  ultimately show ?case using Cons.prems(2) by (simp add: extend_twice)
qed

lemma for_each_extends:
  "(\<And>x s. x \<in> set xs \<Longrightarrow> img < length s \<Longrightarrow> body x s = Inr (extend img (f x) s)) \<Longrightarrow>
   img < length st \<Longrightarrow>
   for_each body xs st = Inr (extend img (concat (map f xs)) st)"
proof (induction xs arbitrary: st)
  case Nil
  show ?case by (simp add: extend_Nil)
next
  case (Cons x xs)
  have "body x st = Inr (extend img (f x) st)"
    using Cons.prems by simp
  moreover have "for_each body xs (extend img (f x) st) =
      Inr (extend img (concat (map f xs)) (extend img (f x) st))"
    using Cons.IH [of "extend img (f x) st"] Cons.prems by (simp add: length_extend)
  ultimately show ?case using Cons.prems(2) by (simp add: extend_twice)
qed

lemma for_each_Inl:
  "for_each body xs st = Inl e \<Longrightarrow> \<exists>x \<in> set xs. \<exists>s. body x s = Inl e"
  by (induction xs arbitrary: st) (auto split: sum.splits)

lemma py_int_nonneg: "0 \<le> q \<Longrightarrow> 0 \<le> py_int q"
  by (simp add: py_int_def)

lemma py_int_floor: "0 \<le> q \<Longrightarrow> py_int q = \<lfloor>q\<rfloor>"
  by (simp add: py_int_def)

subsection \<open>The calls of \<^verbatim>\<open>draw_breathing_circles_icon\<close>\<close>

lemma background_body_call:
  assumes "y \<in> set (py_range (int sz))"
  shows "background_body img sz y st =
    Inr (draw_on img (Line (0, y) (int sz, y) (gradient_color (real_of_int y / real sz))) st)"
proof -
  from assms have "sz \<noteq> 0" by (auto simp: in_py_range)
  then show ?thesis
    by (simp add: background_body_def background_color_def py_div_def draw_line_def)
qed

lemma background_pass_calls:
  "img < length st \<Longrightarrow> background_pass img sz st = Inr (extend img (background_calls sz) st)"
  unfolding background_pass_def background_calls_def
  by (rule for_each_calls) (simp_all add: background_body_call)

lemma background_pass_fresh:
  "background_pass (length st) sz (st @ im # extra) =
     Inr (st @ append_calls (background_calls sz) im # extra)"
  by (simp add: background_pass_calls extend_fresh)

lemma draws_gradient_body:
  assumes "start_color = Rgba r g b a" and "end_color = Rgba r' g' b' a'"
    and "0 \<le> start_radius" and "i \<in> set (py_range (end_radius - start_radius))"
  shows "draws (\<lambda>img. gradient_body img center start_radius end_radius start_color end_color
    (end_radius - start_radius) i)"
proof -
  let ?steps = "end_radius - start_radius"
  let ?progress = "real_of_int i / real_of_int ?steps"
  let ?radius = "real_of_int start_radius + real_of_int ?steps * ?progress"
  from assms(4) have i: "0 \<le> i" "i < ?steps" by (simp_all add: in_py_range)
  then have nz: "real_of_int ?steps \<noteq> 0" by simp
  from i have "0 \<le> ?progress" by simp
  with i have "0 \<le> real_of_int ?steps * ?progress" by simp
  with assms(3) have r: "0 \<le> ?radius" by simp
  have eq: "gradient_body img center start_radius end_radius start_color end_color ?steps i =
      draw_ellipse img (circle_bbox center ?radius)
        (Some (Rgba (interpolate r r' ?progress) (interpolate g g' ?progress)
           (interpolate b b' ?progress) (interpolate a a' ?progress))) None 1" for img
    using nz by (simp add: gradient_body_def py_div_def gradient_alpha_def assms(1,2) Let_def fun_eq_iff)
  show ?thesis
    unfolding eq by (rule draws_circle [OF r])
qed

lemma create_radial_gradient_allocates:
  assumes "start_color = Rgba r g b a" and "end_color = Rgba r' g' b' a'"
    and "0 \<le> start_radius"
  shows "\<exists>cs extra. \<forall>st.
    create_radial_gradient sz center start_radius end_radius start_color end_color st =
      Inr (length st, st @ Image Mode_RGBA sz sz cs # extra)"
proof -
  have "draws (\<lambda>img. for_each (gradient_body img center start_radius end_radius start_color
      end_color (end_radius - start_radius)) (py_range (end_radius - start_radius)))"
    by (rule draws_for_each) (rule draws_gradient_body [OF assms])
  from draws_fresh [OF this] obtain new extra' where
    loop: "\<And>st im extra. for_each (gradient_body (length st) center start_radius end_radius
        start_color end_color (end_radius - start_radius)) (py_range (end_radius - start_radius))
        (st @ im # extra) = Inr (st @ append_calls new im # (extra @ extra'))"
    by blast
  have "create_radial_gradient sz center start_radius end_radius start_color end_color st =
      Inr (length st, st @ Image Mode_RGBA sz sz new # extra')" for st
    using loop [of st _ "[]"] by (simp add: create_radial_gradient_def Image_new_def Let_def)
  then show ?thesis by blast
qed

lemma paste_fresh:
  "paste (length st) (Suc (length st)) box (Suc (length st)) (st @ im # src # extra) =
     st @ append_calls [Paste src box src] im # src # extra"
  by (simp add: paste_def draw_on_extend extend_fresh nth_append)

lemma draws_create_and_paste:
  assumes "\<And>st. create st = Inr (length st, st @ src # extra)"
  shows "draws (\<lambda>img st. case create st of Inl e \<Rightarrow> Inl e
    | Inr (gradient, st') \<Rightarrow> Inr (paste img gradient box gradient st'))"
proof (rule drawsI [where new = "[Paste src box src]" and extra = "src # extra"])
  fix img and st :: store
  assume "img < length st"
  then show "(case create st of Inl e \<Rightarrow> Inl e
      | Inr (gradient, st') \<Rightarrow> Inr (paste img gradient box gradient st')) =
      Inr (extend img [Paste src box src] st @ src # extra)"
    by (simp add: assms paste_def draw_on_extend extend_append)
qed

lemma draws_outline_body:
  assumes "0 \<le> wd" and "wd \<le> 2 * radius" and "i \<in> set (py_range (py_int wd))"
  shows "draws (\<lambda>img. outline_body img center radius outline i)"
proof -
  from assms(1,3) have "i < \<lfloor>wd\<rfloor>" by (simp add: in_py_range py_int_floor)
  then have "real_of_int i + 1 \<le> wd" by (simp add: less_floor_iff)
  with assms(2) have "0 \<le> radius - real_of_int i / 2" by simp
  then show ?thesis
    unfolding outline_body_def Let_def by (rule draws_circle)
qed

lemma draws_circle_body:
  assumes "0 \<le> scale" and "circle \<in> set (circles scale)"
  shows "draws (\<lambda>img. circle_body img center circle)"
proof -
  obtain radius wd outline where c: "circle = (radius, wd, outline)"
    by (cases circle) auto
  from assms c have "0 \<le> wd \<and> wd \<le> 2 * radius"
    by (auto simp: circles_def)
  then have "draws (\<lambda>img. for_each (outline_body img center radius outline)
      (py_range (py_int wd)))"
    by (intro draws_for_each draws_outline_body) simp_all
  moreover have "circle_body img center circle =
      for_each (outline_body img center radius outline) (py_range (py_int wd))" for img
    by (simp add: c circle_body_def fun_eq_iff)
  ultimately show ?thesis by simp
qed

lemma draws_stroke_body:
  assumes "0 \<le> scale" and "i \<in> set (py_range (stroke_width scale))"
  shows "draws (\<lambda>img. stroke_body img center (py_int (center_radius_real scale)) i)"
proof -
  from assms(2) have i: "0 \<le> i" "i < max 1 (py_int (2 * scale))"
    by (simp_all add: in_py_range stroke_width_def stroke_real_def)
  have c: "py_int (center_radius_real scale) = \<lfloor>40 * scale\<rfloor>"
    using assms(1) by (simp add: center_radius_real_def py_int_floor)
  have "real_of_int i / 2 \<le> real_of_int \<lfloor>40 * scale\<rfloor>"
  proof (cases "i = 0")
    case True
    then show ?thesis using assms(1) by simp
  next
    case False
    with i have "i < \<lfloor>2 * scale\<rfloor>" using assms(1) by (simp add: py_int_floor)
    then have "real_of_int i + 1 \<le> 2 * scale" by (simp add: less_floor_iff)
    then have "real_of_int (20 * i) \<le> 40 * scale" by simp
    then have "20 * i \<le> \<lfloor>40 * scale\<rfloor>" by (simp only: le_floor_iff)
    with i(1) have "i \<le> 2 * \<lfloor>40 * scale\<rfloor>" by simp
    then have "real_of_int i \<le> real_of_int (2 * \<lfloor>40 * scale\<rfloor>)" by (simp only: of_int_le_iff)
    then show ?thesis by simp
  qed
  then have "0 \<le> real_of_int (py_int (center_radius_real scale)) - real_of_int i / 2"
    by (simp add: c)
  then show ?thesis
    unfolding stroke_body_def Let_def by (rule draws_circle)
qed

lemma draws_inner_gradient_body:
  assumes "0 \<le> scale" and "i \<in> set (py_range (int (length (gradient_steps scale)) - 1))"
  shows "draws (\<lambda>img. inner_gradient_body img sz center (gradient_steps scale) i)"
proof -
  from assms(2) have "i = 0 \<or> i = 1"
    by (auto simp: in_py_range gradient_steps_def)
  then obtain start_r r g b a end_r r' g' b' a' where
    s: "gradient_steps scale ! nat i = (start_r, Rgba r g b a)"
      "gradient_steps scale ! nat (i + 1) = (end_r, Rgba r' g' b' a')" "0 \<le> start_r"
    using assms(1) by (auto simp: gradient_steps_def with_alpha_def CALM_BLUE_def SERENE_PURPLE_def)
  from create_radial_gradient_allocates [OF refl refl py_int_nonneg [OF s(3)]]
  obtain cs extra where
    "\<And>st. create_radial_gradient sz center (py_int start_r) (py_int end_r) (Rgba r g b a)
       (Rgba r' g' b' a') st = Inr (length st, st @ Image Mode_RGBA sz sz cs # extra)"
    by blast
  from draws_create_and_paste [of "create_radial_gradient sz center (py_int start_r)
      (py_int end_r) (Rgba r g b a) (Rgba r' g' b' a')", OF this, of "(0, 0)"]
  have "draws (\<lambda>img st.
      case create_radial_gradient sz center (py_int start_r) (py_int end_r) (Rgba r g b a)
             (Rgba r' g' b' a') st of
        Inl e \<Rightarrow> Inl e
      | Inr (gradient, st') \<Rightarrow> Inr (paste img gradient (0, 0) gradient st'))" .
  moreover have "inner_gradient_body img sz center (gradient_steps scale) i =
      (\<lambda>st. case create_radial_gradient sz center (py_int start_r) (py_int end_r)
             (Rgba r g b a) (Rgba r' g' b' a') st of
        Inl e \<Rightarrow> Inl e
      | Inr (gradient, st') \<Rightarrow> Inr (paste img gradient (0, 0) gradient st'))" for img
    by (simp add: inner_gradient_body_def s fun_eq_iff)
  ultimately show ?thesis by simp
qed

text \<open>
  For every size, and whatever the store holds, \<^verbatim>\<open>draw_breathing_circles_icon\<close> raises
  nothing, and returns a new image of that size whose calls start with those of the
  background pass; the images it creates on the way follow it in the store.
\<close>

lemma icon_closed_form:
  "\<exists>cs extra. \<forall>st. draw_breathing_circles_icon sz st =
     Inr (length st, st @ Image Mode_RGB sz sz (background_calls sz @ cs) # extra)"
proof -
  let ?scale = "scale_of sz"
  let ?center = "(int sz div 2, int sz div 2)"
  have s: "0 \<le> ?scale" by (simp add: scale_of_def)
  have "0 \<le> py_int (fst (glow_radii ?scale))"
    using s by (simp add: glow_radii_def py_int_nonneg)
  from create_radial_gradient_allocates [where start_color = "Rgba 128 89 217 76"
      and end_color = "Rgba 0 0 0 0" and sz = sz and center = ?center
      and end_radius = "py_int (snd (glow_radii ?scale))", OF refl refl this]
  obtain gc gx where glow: "\<And>st. create_radial_gradient sz ?center
      (py_int (fst (glow_radii ?scale))) (py_int (snd (glow_radii ?scale)))
      (with_alpha SERENE_PURPLE 76) (Rgba 0 0 0 0) st =
      Inr (length st, st @ Image Mode_RGBA sz sz gc # gx)"
    unfolding with_alpha_def SERENE_PURPLE_def by auto
  have "draws (\<lambda>img. for_each (circle_body img ?center) (circles ?scale))"
    by (rule draws_for_each) (rule draws_circle_body [OF s])
  from draws_fresh [OF this] obtain c1 e1 where circ: "\<And>st im extra.
      for_each (circle_body (length st) ?center) (circles ?scale) (st @ im # extra) =
      Inr (st @ append_calls c1 im # (extra @ e1))"
    by blast
  have "draws (\<lambda>img. for_each (inner_gradient_body img sz ?center (gradient_steps ?scale))
      (py_range (int (length (gradient_steps ?scale)) - 1)))"
    by (rule draws_for_each) (rule draws_inner_gradient_body [OF s])
  from draws_fresh [OF this] obtain c2 e2 where inner: "\<And>st im extra.
      for_each (inner_gradient_body (length st) sz ?center (gradient_steps ?scale))
        (py_range (int (length (gradient_steps ?scale)) - 1)) (st @ im # extra) =
      Inr (st @ append_calls c2 im # (extra @ e2))"
    by blast
  have "draws (\<lambda>img. for_each (stroke_body img ?center (py_int (center_radius_real ?scale)))
      (py_range (stroke_width ?scale)))"
    by (rule draws_for_each) (rule draws_stroke_body [OF s])
  from draws_fresh [OF this] obtain c3 e3 where stroke: "\<And>st im extra.
      for_each (stroke_body (length st) ?center (py_int (center_radius_real ?scale)))
        (py_range (stroke_width ?scale)) (st @ im # extra) =
      Inr (st @ append_calls c3 im # (extra @ e3))"
    by blast
  let ?G = "Image Mode_RGBA sz sz gc"
  have "draw_breathing_circles_icon sz st =
      Inr (length st, st @ Image Mode_RGB sz sz
        (background_calls sz @ ([Paste ?G (0, 0) ?G] @ c1 @ c2 @ c3)) #
        (?G # gx @ e1 @ e2 @ e3))" for st
    by (simp add: draw_breathing_circles_icon_def Image_new_def Let_def
        background_pass_fresh glow paste_fresh circ inner stroke)
  then show ?thesis by blast
qed

subsection \<open>Rounding to double precision\<close>

text \<open>
  The error of one rounding is at most \<open>1 / 2 ^ 53\<close> of the value; the ratio of the radial
  background is within \<open>6 / 2 ^ 53\<close> of the exact ratio and each channel value within
  \<open>1 / 2 ^ 43\<close> of the exact one. \<open>round_double_dyadic\<close> and \<open>double_sqrt_dyadic\<close> evaluate
  a rounding from the integer mantissa of the result.
\<close>

lemma round_even_error: "\<bar>real_of_int (round_even y) - y\<bar> \<le> 1 / 2"
  unfolding round_even_def Let_def by (auto; linarith)

lemma round_even_eqI: "\<bar>y - real_of_int k\<bar> < 1 / 2 \<Longrightarrow> round_even y = k"
proof -
  assume a: "\<bar>y - real_of_int k\<bar> < 1 / 2"
  from a have b: "y - real_of_int k < 1 / 2" "real_of_int k - y < 1 / 2" by linarith+
  have "\<lfloor>y\<rfloor> = k \<or> \<lfloor>y\<rfloor> = k - 1" using a by linarith
  then show ?thesis
  proof
    assume f: "\<lfloor>y\<rfloor> = k"
    from b have "y - real_of_int \<lfloor>y\<rfloor> < 1 / 2" unfolding f by linarith
    then show ?thesis by (simp add: round_even_def Let_def f)
  next
    assume f: "\<lfloor>y\<rfloor> = k - 1"
    from b have "1 / 2 < y - real_of_int \<lfloor>y\<rfloor>" unfolding f of_int_diff of_int_1 by linarith
    then show ?thesis by (simp add: round_even_def Let_def f)
  qed
qed

lemma ulp_pos: "0 < ulp x"
  by (simp add: ulp_def)

lemma ulp_eqI:
  assumes "2 powr real_of_int e \<le> \<bar>x\<bar>" and "\<bar>x\<bar> < 2 powr real_of_int (e + 1)"
  shows "ulp x = 2 powr real_of_int (e - 52)"
proof -
  have pos: "0 < \<bar>x\<bar>" using assms(1) by (smt (verit) powr_gt_zero)
  have "real_of_int e \<le> log 2 \<bar>x\<bar>" using assms(1) pos by (simp add: le_log_iff)
  moreover have "log 2 \<bar>x\<bar> < real_of_int (e + 1)" using assms(2) pos by (simp add: log_less_iff)
  ultimately have "\<lfloor>log 2 \<bar>x\<bar>\<rfloor> = e" by linarith
  then show ?thesis by (simp add: ulp_def)
qed

lemma ulp_le:
  assumes "x \<noteq> 0"
  shows "ulp x \<le> \<bar>x\<bar> / 2 ^ 52"
proof -
  have pos: "0 < \<bar>x\<bar>" using assms by simp
  have "real_of_int \<lfloor>log 2 \<bar>x\<bar>\<rfloor> \<le> log 2 \<bar>x\<bar>" by (rule of_int_floor_le)
  then have "2 powr real_of_int \<lfloor>log 2 \<bar>x\<bar>\<rfloor> \<le> \<bar>x\<bar>"
    using le_log_iff [of 2 "\<bar>x\<bar>" "real_of_int \<lfloor>log 2 \<bar>x\<bar>\<rfloor>"] pos by linarith
  moreover have "ulp x = 2 powr real_of_int \<lfloor>log 2 \<bar>x\<bar>\<rfloor> / 2 ^ 52"
    by (simp add: ulp_def powr_diff)
  ultimately show ?thesis by (simp add: divide_right_mono)
qed

lemma round_double_zero: "round_double 0 = 0"
  by (simp add: round_double_def)

lemma round_double_error: "\<bar>round_double x - x\<bar> \<le> \<bar>x\<bar> / 2 ^ 53"
proof (cases "x = 0")
  case True
  then show ?thesis by (simp add: round_double_def)
next
  case False
  let ?p = "ulp x"
  have p: "0 < ?p" by (rule ulp_pos)
  have "round_double x - x = (real_of_int (round_even (x / ?p)) - x / ?p) * ?p"
    using False p by (simp add: round_double_def field_simps)
  then have "\<bar>round_double x - x\<bar> = \<bar>real_of_int (round_even (x / ?p)) - x / ?p\<bar> * ?p"
    using p by (simp add: abs_mult)
  also have "\<dots> \<le> 1 / 2 * ?p"
    using round_even_error [of "x / ?p"] p by (intro mult_right_mono) simp_all
  also have "\<dots> \<le> 1 / 2 * (\<bar>x\<bar> / 2 ^ 52)"
    using ulp_le [OF False] by simp
  also have "\<dots> = \<bar>x\<bar> / 2 ^ 53" by simp
  finally show ?thesis .
qed

lemma round_double_eqI:
  assumes "p = 2 powr real_of_int (e - 52)"
    and "2 powr real_of_int e \<le> \<bar>x\<bar>" and "\<bar>x\<bar> < 2 powr real_of_int (e + 1)"
    and "\<bar>x - real_of_int k * p\<bar> < p / 2"
  shows "round_double x = real_of_int k * p"
proof -
  have u: "ulp x = p" using ulp_eqI [OF assms(2,3)] assms(1) by simp
  have p: "0 < p" using assms(1) by simp
  have nz: "x \<noteq> 0" using assms(2) by (smt (verit) powr_gt_zero)
  have "x / p - real_of_int k = (x - real_of_int k * p) / p"
    using p by (simp add: field_simps)
  then have "\<bar>x / p - real_of_int k\<bar> = \<bar>x - real_of_int k * p\<bar> / p"
    using p by (simp only: abs_divide abs_of_pos)
  also have "\<dots> < 1 / 2" using assms(4) p by (simp add: field_simps)
  finally have "round_even (x / p) = k" by (rule round_even_eqI)
  then show ?thesis using nz by (simp add: round_double_def u)
qed

lemma round_double_bounds:
  assumes "0 \<le> x"
  shows "x * (1 - 1 / 2 ^ 53) \<le> round_double x" and "round_double x \<le> x * (1 + 1 / 2 ^ 53)"
proof -
  have "\<bar>round_double x - x\<bar> \<le> x / 2 ^ 53"
    using round_double_error [of x] assms by simp
  then have "x - x / 2 ^ 53 \<le> round_double x" "round_double x \<le> x + x / 2 ^ 53"
    by linarith+
  then show "x * (1 - 1 / 2 ^ 53) \<le> round_double x" "round_double x \<le> x * (1 + 1 / 2 ^ 53)"
    by (simp_all add: algebra_simps)
qed

lemma round_double_nonneg: "0 \<le> x \<Longrightarrow> 0 \<le> round_double x"
proof -
  assume x: "0 \<le> x"
  then have "0 \<le> x * (1 - 1 / 2 ^ 53)" by simp
  with round_double_bounds(1) [OF x] show ?thesis by linarith
qed

lemma round_double_pos: "0 < x \<Longrightarrow> 0 < round_double x"
proof -
  assume x: "0 < x"
  then have "0 < x * (1 - 1 / 2 ^ 53)" by simp
  with round_double_bounds(1) [of x] x show ?thesis by linarith
qed

lemma sqrt_chain:
  assumes "0 \<le> D"
  shows "sqrt D * (1 - 1 / 2 ^ 53)\<^sup>2 \<le> round_double (sqrt (round_double D))"
    and "round_double (sqrt (round_double D)) \<le> sqrt D * (1 + 1 / 2 ^ 53)\<^sup>2"
proof -
  let ?u = "1 / 2 ^ 53 :: real"
  let ?D' = "round_double D"
  have s: "0 \<le> sqrt D" using assms by simp
  have lo: "sqrt D * (1 - ?u) \<le> sqrt ?D'"
  proof -
    have "(1 - ?u)\<^sup>2 \<le> 1 - ?u" by (simp add: power2_eq_square)
    then have "1 - ?u \<le> sqrt (1 - ?u)" by (rule real_le_rsqrt)
    then have "sqrt D * (1 - ?u) \<le> sqrt D * sqrt (1 - ?u)"
      using s by (rule mult_left_mono)
    also have "\<dots> = sqrt (D * (1 - ?u))" by (simp only: real_sqrt_mult)
    also have "\<dots> \<le> sqrt ?D'"
      using round_double_bounds(1) [OF assms] by (simp only: real_sqrt_le_iff)
    finally show ?thesis .
  qed
  have hi: "sqrt ?D' \<le> sqrt D * (1 + ?u)"
  proof -
    have "sqrt ?D' \<le> sqrt (D * (1 + ?u))"
      using round_double_bounds(2) [OF assms] by (simp only: real_sqrt_le_iff)
    also have "\<dots> = sqrt D * sqrt (1 + ?u)" by (simp only: real_sqrt_mult)
    also have "\<dots> \<le> sqrt D * (1 + ?u)"
    proof (rule mult_left_mono [OF _ s])
      have "1 + ?u \<le> (1 + ?u)\<^sup>2" by (simp add: power2_eq_square)
      then show "sqrt (1 + ?u) \<le> 1 + ?u" by (intro real_le_lsqrt) simp_all
    qed
    finally show ?thesis .
  qed
  have n: "0 \<le> sqrt ?D'" using round_double_nonneg [OF assms] by simp
  have "sqrt D * (1 - ?u) * (1 - ?u) \<le> sqrt ?D' * (1 - ?u)"
    using lo by (intro mult_right_mono) simp_all
  also have "\<dots> \<le> round_double (sqrt ?D')" by (rule round_double_bounds(1) [OF n])
  finally show "sqrt D * (1 - ?u)\<^sup>2 \<le> round_double (sqrt ?D')"
    by (simp only: power2_eq_square mult.assoc)
  have "round_double (sqrt ?D') \<le> sqrt ?D' * (1 + ?u)" by (rule round_double_bounds(2) [OF n])
  also have "\<dots> \<le> sqrt D * (1 + ?u) * (1 + ?u)"
    using hi by (intro mult_right_mono) simp_all
  finally show "round_double (sqrt ?D') \<le> sqrt D * (1 + ?u)\<^sup>2"
    by (simp only: power2_eq_square mult.assoc)
qed

lemma quotient_bounds:
  fixes a b d m d' m' :: real
  assumes "0 < a" and "0 < b" and "0 \<le> d" and "0 < m"
    and "a * d \<le> d'" and "d' \<le> b * d" and "a * m \<le> m'" and "m' \<le> b * m"
  shows "a / b * (d / m) \<le> d' / m'" and "d' / m' \<le> b / a * (d / m)"
proof -
  have m': "0 < m'" using assms(1,4,7) by (smt (verit) mult_pos_pos)
  have d': "0 \<le> d'" using assms(1,3,5) by (smt (verit) mult_nonneg_nonneg)
  have "(a * d) / (b * m) \<le> d' / m'"
    using d' assms(5) m' assms(8) by (rule frac_le)
  then show "a / b * (d / m) \<le> d' / m'" by simp
  have "0 \<le> b * d" using assms(2,3) by simp
  moreover have "0 < a * m" using assms(1,4) by simp
  ultimately have "d' / m' \<le> (b * d) / (a * m)"
    using assms(6,7) by (intro frac_le)
  then show "d' / m' \<le> b / a * (d / m)" by simp
qed

lemma unit_roundoff_facts:
  "(1 - 6 / 2 ^ 53 :: real) \<le> (1 - 1 / 2 ^ 53)\<^sup>2 / (1 + 1 / 2 ^ 53)\<^sup>2 * (1 - 1 / 2 ^ 53)"
  "(1 + 1 / 2 ^ 53)\<^sup>2 / (1 - 1 / 2 ^ 53)\<^sup>2 * (1 + 1 / 2 ^ 53) \<le> (1 + 6 / 2 ^ 53 :: real)"
  by (simp_all add: power2_eq_square)

lemma abs_le_from_bounds:
  fixes t e r c :: real
  shows "t - e \<le> r \<Longrightarrow> r \<le> t + e \<Longrightarrow> e \<le> c \<Longrightarrow> \<bar>r - t\<bar> \<le> c"
  by linarith

lemma ratio_error:
  assumes "0 \<le> D" and "D \<le> M" and "0 < M"
  shows "0 < round_double (sqrt (round_double M))"
    and "0 \<le> round_double (round_double (sqrt (round_double D)) /
        round_double (sqrt (round_double M)))"
    and "\<bar>round_double (round_double (sqrt (round_double D)) /
        round_double (sqrt (round_double M))) - sqrt D / sqrt M\<bar> \<le> 6 / 2 ^ 53"
proof -
  let ?u = "1 / 2 ^ 53 :: real"
  let ?a = "(1 - ?u)\<^sup>2" and ?b = "(1 + ?u)\<^sup>2"
  let ?d' = "round_double (sqrt (round_double D))"
  let ?m' = "round_double (sqrt (round_double M))"
  let ?t = "sqrt D / sqrt M"
  have M: "0 \<le> M" using assms(3) by simp
  have d: "0 \<le> sqrt D" and m: "0 < sqrt M" using assms by simp_all
  have a: "0 < ?a" and b: "0 < ?b" by simp_all
  have dl: "?a * sqrt D \<le> ?d'" and dh: "?d' \<le> ?b * sqrt D"
    using sqrt_chain [OF assms(1)] by (simp_all only: mult.commute)
  have ml: "?a * sqrt M \<le> ?m'" and mh: "?m' \<le> ?b * sqrt M"
    using sqrt_chain [OF M] by (simp_all only: mult.commute)
  have "0 < ?a * sqrt M" using a m by (rule mult_pos_pos)
  with ml show m': "0 < ?m'" by linarith
  have d': "0 \<le> ?d'" using dl a d by (smt (verit) mult_nonneg_nonneg)
  have q: "0 \<le> ?d' / ?m'" using d' m' by simp
  then show "0 \<le> round_double (?d' / ?m')" by (rule round_double_nonneg)
  have t: "0 \<le> ?t" "?t \<le> 1" using assms d m by simp_all
  note qb = quotient_bounds [OF a b d m dl dh ml mh]
  have "?t * (1 - 6 * ?u) \<le> ?t * (?a / ?b * (1 - ?u))"
    using unit_roundoff_facts(1) t(1) by (intro mult_left_mono) simp_all
  also have "\<dots> = ?a / ?b * ?t * (1 - ?u)" by (simp only: mult_ac)
  also have "\<dots> \<le> ?d' / ?m' * (1 - ?u)"
    using qb(1) by (intro mult_right_mono) simp_all
  also have "\<dots> \<le> round_double (?d' / ?m')" by (rule round_double_bounds(1) [OF q])
  finally have lo: "?t * (1 - 6 * ?u) \<le> round_double (?d' / ?m')" .
  have "round_double (?d' / ?m') \<le> ?d' / ?m' * (1 + ?u)" by (rule round_double_bounds(2) [OF q])
  also have "\<dots> \<le> ?b / ?a * ?t * (1 + ?u)"
    using qb(2) by (intro mult_right_mono) simp_all
  also have "\<dots> = ?t * (?b / ?a * (1 + ?u))" by (simp only: mult_ac)
  also have "\<dots> \<le> ?t * (1 + 6 * ?u)"
    using unit_roundoff_facts(2) t(1) by (intro mult_left_mono) simp_all
  finally have hi: "round_double (?d' / ?m') \<le> ?t * (1 + 6 * ?u)" .
  have "?t * (6 * ?u) \<le> 1 * (6 * ?u)" using t(2) by (intro mult_right_mono) simp_all
  then have e: "?t * (6 * ?u) \<le> 6 / 2 ^ 53" by simp
  have eq: "?t * (1 - 6 * ?u) = ?t - ?t * (6 * ?u)" "?t * (1 + 6 * ?u) = ?t + ?t * (6 * ?u)"
    by (simp_all only: right_diff_distrib distrib_left mult_1_right)
  show "\<bar>round_double (?d' / ?m') - ?t\<bar> \<le> 6 / 2 ^ 53"
    using lo hi e unfolding eq by (rule abs_le_from_bounds)
qed

lemma channel_error:
  assumes "0 \<le> t" and "t \<le> 1" and "\<bar>t' - t\<bar> \<le> 6 / 2 ^ 53"
    and "0 \<le> K" and "K \<le> 80" and "0 \<le> A" and "A \<le> 220"
  shows "\<bar>round_double (A + round_double (t' * K)) - (A + t * K)\<bar> \<le> 1 / 2 ^ 43"
    and "\<bar>round_double (A - round_double (t' * K)) - (A - t * K)\<bar> \<le> 1 / 2 ^ 43"
proof -
  let ?u = "1 / 2 ^ 53 :: real"
  let ?p = "round_double (t' * K)"
  have "(6 / 2 ^ 53 :: real) \<le> 1" by simp
  with assms(3) have "\<bar>t' - t\<bar> \<le> 1" by (rule order_trans)
  with assms(1,2) have t': "\<bar>t'\<bar> \<le> 2" by linarith
  have "\<bar>t' * K\<bar> = \<bar>t'\<bar> * \<bar>K\<bar>" by (rule abs_mult)
  also have "\<dots> \<le> 2 * 80" using t' assms(4,5) by (intro mult_mono) simp_all
  finally have tk: "\<bar>t' * K\<bar> \<le> 160" by simp
  have "\<bar>?p - t' * K\<bar> \<le> \<bar>t' * K\<bar> / 2 ^ 53" by (rule round_double_error)
  also have "\<dots> \<le> 160 / 2 ^ 53" using tk by (simp add: divide_right_mono)
  finally have e1: "\<bar>?p - t' * K\<bar> \<le> 160 / 2 ^ 53" .
  have "\<bar>t' * K - t * K\<bar> = \<bar>t' - t\<bar> * \<bar>K\<bar>" by (simp only: abs_mult flip: left_diff_distrib)
  also have "\<dots> \<le> 6 / 2 ^ 53 * 80" using assms(3-5) by (intro mult_mono) simp_all
  finally have e2: "\<bar>t' * K - t * K\<bar> \<le> 480 / 2 ^ 53" by simp
  have "t * K \<le> 1 * 80" using assms(1,2,4,5) by (intro mult_mono) simp_all
  moreover have "0 \<le> t * K" using assms(1,4) by simp
  ultimately have tK: "0 \<le> t * K" "t * K \<le> 80" by simp_all
  have "(160 / 2 ^ 53 :: real) \<le> 1 / 2" "(480 / 2 ^ 53 :: real) \<le> 1 / 2" by simp_all
  with e1 e2 have "\<bar>?p - t' * K\<bar> \<le> 1 / 2" "\<bar>t' * K - t * K\<bar> \<le> 1 / 2"
    by (blast intro: order_trans)+
  with tK have p: "\<bar>?p\<bar> \<le> 81" by linarith
  have "\<bar>round_double (A + ?p) - (A + ?p)\<bar> \<le> \<bar>A + ?p\<bar> / 2 ^ 53" by (rule round_double_error)
  also have "\<dots> \<le> 301 / 2 ^ 53"
  proof (rule divide_right_mono)
    from p assms(6,7) show "\<bar>A + ?p\<bar> \<le> 301" by linarith
  qed simp
  finally have e3: "\<bar>round_double (A + ?p) - (A + ?p)\<bar> \<le> 301 / 2 ^ 53" .
  have "\<bar>round_double (A - ?p) - (A - ?p)\<bar> \<le> \<bar>A - ?p\<bar> / 2 ^ 53" by (rule round_double_error)
  also have "\<dots> \<le> 301 / 2 ^ 53"
  proof (rule divide_right_mono)
    from p assms(6,7) show "\<bar>A - ?p\<bar> \<le> 301" by linarith
  qed simp
  finally have e4: "\<bar>round_double (A - ?p) - (A - ?p)\<bar> \<le> 301 / 2 ^ 53" .
  have c: "(941 / 2 ^ 53 :: real) \<le> 1 / 2 ^ 43" by simp
  show "\<bar>round_double (A + ?p) - (A + t * K)\<bar> \<le> 1 / 2 ^ 43"
    using e1 e2 e3 c by linarith
  show "\<bar>round_double (A - ?p) - (A - t * K)\<bar> \<le> 1 / 2 ^ 43"
    using e1 e2 e4 c by linarith
qed

lemma floor_close:
  fixes v v' :: real
  assumes "\<bar>v' - v\<bar> \<le> 1 / 2 ^ 43"
  shows "\<bar>\<lfloor>v'\<rfloor> - \<lfloor>v\<rfloor>\<bar> \<le> 1"
proof -
  have "(1 / 2 ^ 43 :: real) < 1" by simp
  with assms have "v - 1 < v'" "v' < v + 1" by linarith+
  then have "\<lfloor>v\<rfloor> - 1 \<le> \<lfloor>v'\<rfloor>" "\<lfloor>v'\<rfloor> \<le> \<lfloor>v\<rfloor> + 1" by linarith+
  then show ?thesis by linarith
qed

lemma floor_same:
  fixes v v' :: real
  assumes "\<bar>v' - v\<bar> \<le> 1 / 2 ^ 43"
    and "real_of_int \<lfloor>v\<rfloor> + 1 / 2 ^ 43 \<le> v" and "v + 1 / 2 ^ 43 < real_of_int \<lfloor>v\<rfloor> + 1"
  shows "\<lfloor>v'\<rfloor> = \<lfloor>v\<rfloor>"
proof (rule floor_unique)
  from assms show "real_of_int \<lfloor>v\<rfloor> \<le> v'" by linarith
  from assms show "v' < real_of_int \<lfloor>v\<rfloor> + 1" by linarith
qed

lemma round_double_dyadic:
  fixes n :: nat
  assumes "2 ^ 52 \<le> \<bar>x\<bar> * 2 ^ n" and "\<bar>x\<bar> * 2 ^ n < 2 ^ 53"
    and "\<bar>x * 2 ^ n - real_of_int k\<bar> < 1 / 2"
  shows "round_double x = real_of_int k / 2 ^ n"
proof -
  let ?e = "52 - int n"
  have p: "(1 / 2 ^ n :: real) = 2 powr real_of_int (?e - 52)"
    by (simp add: powr_minus powr_realpow inverse_eq_divide)
  have e: "2 powr real_of_int ?e = (2 ^ 52 / 2 ^ n :: real)"
    by (simp add: powr_diff powr_realpow)
  have e1: "2 powr real_of_int (?e + 1) = (2 ^ 53 / 2 ^ n :: real)"
  proof -
    have "real_of_int (?e + 1) = 53 - real n" by simp
    then show ?thesis by (simp only: powr_diff powr_realpow powr_numeral)
  qed
  have "2 ^ 52 / 2 ^ n \<le> \<bar>x\<bar>"
    using assms(1) by (simp add: field_simps)
  then have a: "2 powr real_of_int ?e \<le> \<bar>x\<bar>"
    by (simp only: e)
  have "\<bar>x\<bar> < 2 ^ 53 / 2 ^ n"
    using assms(2) by (simp add: field_simps)
  then have b: "\<bar>x\<bar> < 2 powr real_of_int (?e + 1)"
    by (simp only: e1)
  have "x - real_of_int k * (1 / 2 ^ n) = (x * 2 ^ n - real_of_int k) / 2 ^ n"
    by (simp add: field_simps)
  then have "\<bar>x - real_of_int k * (1 / 2 ^ n)\<bar> = \<bar>x * 2 ^ n - real_of_int k\<bar> / 2 ^ n"
    by (simp only: abs_divide) simp
  also have "\<dots> < (1 / 2) / 2 ^ n"
    using assms(3) by (intro divide_strict_right_mono) simp_all
  finally have c: "\<bar>x - real_of_int k * (1 / 2 ^ n)\<bar> < (1 / 2 ^ n) / 2" by simp
  from round_double_eqI [OF p a b c] show ?thesis by simp
qed

lemma double_sqrt_dyadic:
  fixes n :: nat and k :: int
  assumes "2 ^ 52 < k" and "k < 2 ^ 53"
    and "real_of_int ((2 * k - 1)\<^sup>2) < D * 4 ^ (n + 1)"
    and "D * 4 ^ (n + 1) < real_of_int ((2 * k + 1)\<^sup>2)"
  shows "round_double (sqrt D) = real_of_int k / 2 ^ n"
proof (rule round_double_dyadic)
  let ?s = "2 ^ (n + 1) :: real"
  have s: "0 < ?s" by simp
  have sq: "?s\<^sup>2 = 4 ^ (n + 1)"
    by (simp add: power_mult_distrib [symmetric] power2_eq_square flip: power_add)
  have "(0::int) < 2 ^ 52" by simp
  then have "0 < k" using assms(1) by (rule less_trans)
  then have k: "0 < 2 * k - 1" by linarith
  have "(real_of_int (2 * k - 1) / ?s)\<^sup>2 < D"
    using assms(3) by (simp only: power_divide sq of_int_power) (simp add: field_simps)
  then have lo: "real_of_int (2 * k - 1) / ?s < sqrt D" by (rule real_less_rsqrt)
  have "D < (real_of_int (2 * k + 1) / ?s)\<^sup>2"
    using assms(4) by (simp only: power_divide sq of_int_power) (simp add: field_simps)
  moreover have "0 \<le> real_of_int (2 * k + 1) / ?s" using k by simp
  ultimately have hi: "sqrt D < real_of_int (2 * k + 1) / ?s" by (intro real_less_lsqrt)
  have lo': "real_of_int k - 1 / 2 < sqrt D * 2 ^ n"
    using lo by (simp add: field_simps)
  have hi': "sqrt D * 2 ^ n < real_of_int k + 1 / 2"
    using hi by (simp add: field_simps)
  have "4503599627370497 \<le> k" "k \<le> 9007199254740991"
    using assms(1,2) by simp_all
  then have kr: "4503599627370497 \<le> real_of_int k" "real_of_int k \<le> 9007199254740991"
    by linarith+
  have pos: "0 \<le> sqrt D * 2 ^ n" using lo' kr(1) by linarith
  have "0 < real_of_int (2 * k - 1) / ?s" using k by simp
  with lo have "0 \<le> sqrt D" by linarith
  then have ab: "\<bar>sqrt D\<bar> * 2 ^ n = sqrt D * 2 ^ n" by (simp only: abs_of_nonneg)
  have "4503599627370496 \<le> sqrt D * 2 ^ n" using lo' kr(1) by linarith
  then show "2 ^ 52 \<le> \<bar>sqrt D\<bar> * 2 ^ n" unfolding ab by simp
  have "sqrt D * 2 ^ n < 9007199254740992" using hi' kr(2) by linarith
  then show "\<bar>sqrt D\<bar> * 2 ^ n < 2 ^ 53" unfolding ab by simp
  show "\<bar>sqrt D * 2 ^ n - real_of_int k\<bar> < 1 / 2" using lo' hi' by linarith
qed

subsection \<open>The calls of \<^verbatim>\<open>create_zen_icon\<close>\<close>

lemma radial_ratio_bounds:
  assumes "0 \<le> x" "x < int sz" "0 \<le> y" "y < int sz"
  shows "0 \<le> radial_ratio sz x y \<and> radial_ratio sz x y \<le> 1"
proof -
  let ?c = "int sz div 2"
  have "\<bar>x - ?c\<bar> \<le> \<bar>?c\<bar>" "\<bar>y - ?c\<bar> \<le> \<bar>?c\<bar>" using assms by auto
  then have "(x - ?c)\<^sup>2 \<le> ?c\<^sup>2" "(y - ?c)\<^sup>2 \<le> ?c\<^sup>2"
    by (simp_all only: abs_le_square_iff)
  then have "(x - ?c)\<^sup>2 + (y - ?c)\<^sup>2 \<le> ?c\<^sup>2 + ?c\<^sup>2" by simp
  then have "real_of_int ((x - ?c)\<^sup>2 + (y - ?c)\<^sup>2) \<le> real_of_int (?c\<^sup>2 + ?c\<^sup>2)"
    by (simp only: of_int_le_iff)
  then have le: "sqrt (real_of_int ((x - ?c)\<^sup>2 + (y - ?c)\<^sup>2)) \<le> sqrt (real_of_int (?c\<^sup>2 + ?c\<^sup>2))"
    by (simp only: real_sqrt_le_iff)
  have nn: "0 \<le> sqrt (real_of_int ((x - ?c)\<^sup>2 + (y - ?c)\<^sup>2))" by simp
  show ?thesis
  proof (cases "sqrt (real_of_int (?c\<^sup>2 + ?c\<^sup>2)) = 0")
    case True
    then show ?thesis by (simp add: radial_ratio_def)
  next
    case False
    then have "0 < sqrt (real_of_int (?c\<^sup>2 + ?c\<^sup>2))"
      using nn le by linarith
    then show ?thesis
      unfolding radial_ratio_def using le nn by (simp add: divide_le_eq)
  qed
qed

lemma squared_distance_le:
  assumes "0 \<le> x" "x < int sz" "0 \<le> y" "y < int sz"
  shows "(x - int sz div 2)\<^sup>2 + (y - int sz div 2)\<^sup>2 \<le> (int sz div 2)\<^sup>2 + (int sz div 2)\<^sup>2"
proof -
  let ?c = "int sz div 2"
  have "\<bar>x - ?c\<bar> \<le> \<bar>?c\<bar>" "\<bar>y - ?c\<bar> \<le> \<bar>?c\<bar>" using assms by auto
  then have "(x - ?c)\<^sup>2 \<le> ?c\<^sup>2" "(y - ?c)\<^sup>2 \<le> ?c\<^sup>2"
    by (simp_all only: abs_le_square_iff)
  then show ?thesis by simp
qed

lemma squared_radius_pos:
  "2 \<le> sz \<Longrightarrow> 0 < real_of_int ((int sz div 2)\<^sup>2 + (int sz div 2)\<^sup>2)"
proof -
  assume "2 \<le> sz"
  then have "0 < int sz div 2" by simp
  then have "0 < (int sz div 2)\<^sup>2 + (int sz div 2)\<^sup>2" by (simp add: add_pos_pos)
  then show ?thesis by (simp only: of_int_0_less_iff)
qed

lemma radial_norm_nonzero:
  "2 \<le> sz \<Longrightarrow> sqrt (real_of_int ((int sz div 2)\<^sup>2 + (int sz div 2)\<^sup>2)) \<noteq> 0"
proof -
  assume "2 \<le> sz"
  then have "0 < real_of_int ((int sz div 2)\<^sup>2 + (int sz div 2)\<^sup>2)" by (rule squared_radius_pos)
  then show ?thesis by simp
qed

lemma zen_max_radius_pos:
  assumes "2 \<le> sz"
  shows "0 < double_sqrt (py_float ((int sz div 2)\<^sup>2 + (int sz div 2)\<^sup>2))"
proof -
  from assms have p: "0 < real_of_int ((int sz div 2)\<^sup>2 + (int sz div 2)\<^sup>2)"
    by (rule squared_radius_pos)
  then have "0 \<le> real_of_int ((int sz div 2)\<^sup>2 + (int sz div 2)\<^sup>2)" by (rule less_imp_le)
  from ratio_error(1) [OF this order_refl p] show ?thesis
    unfolding double_sqrt_def py_float_def .
qed

lemma zen_pixel_color:
  assumes "2 \<le> sz"
  shows "zen_pixel (int sz div 2) (int sz div 2)
    (double_sqrt (py_float ((int sz div 2)\<^sup>2 + (int sz div 2)\<^sup>2))) x y = Inr (zen_color sz x y)"
proof -
  from zen_max_radius_pos [OF assms]
  have "(double_sqrt (py_float ((int sz div 2)\<^sup>2 + (int sz div 2)\<^sup>2)) = 0) = False"
    by (simp only: less_imp_neq [THEN not_sym] simp_thms)
  then show ?thesis
    by (simp only: zen_pixel_def double_div_def Let_def zen_color_def zen_ratio_def if_False
        sum.case)
qed

lemma zen_ratio_close:
  assumes "2 \<le> sz" and "0 \<le> x" and "x < int sz" and "0 \<le> y" and "y < int sz"
  shows "\<bar>zen_ratio sz x y - radial_ratio sz x y\<bar> \<le> 6 / 2 ^ 53"
proof -
  let ?D = "real_of_int ((x - int sz div 2)\<^sup>2 + (y - int sz div 2)\<^sup>2)"
  let ?M = "real_of_int ((int sz div 2)\<^sup>2 + (int sz div 2)\<^sup>2)"
  have d: "0 \<le> ?D" by simp
  have dm: "?D \<le> ?M"
    using squared_distance_le [OF assms(2-5)] by (simp only: of_int_le_iff)
  have m: "0 < ?M" using assms(1) by (rule squared_radius_pos)
  from ratio_error(3) [OF d dm m] show ?thesis
    unfolding zen_ratio_def radial_ratio_def double_sqrt_def py_float_def .
qed

lemma zen_channel_values:
  assumes "2 \<le> sz" and "0 \<le> x" and "x < int sz" and "0 \<le> y" and "y < int sz"
  shows "\<bar>double_add 100 (double_mul (zen_ratio sz x y) 80) -
      (100 + 80 * radial_ratio sz x y)\<bar> \<le> 1 / 2 ^ 43"
    and "\<bar>double_sub 150 (double_mul (zen_ratio sz x y) 70) -
      (150 - 70 * radial_ratio sz x y)\<bar> \<le> 1 / 2 ^ 43"
    and "\<bar>double_sub 220 (double_mul (zen_ratio sz x y) 20) -
      (220 - 20 * radial_ratio sz x y)\<bar> \<le> 1 / 2 ^ 43"
proof -
  from radial_ratio_bounds [OF assms(2-5)]
  have t: "0 \<le> radial_ratio sz x y" "radial_ratio sz x y \<le> 1" by simp_all
  note c = zen_ratio_close [OF assms]
  have k: "(0::real) \<le> 80" "(80::real) \<le> 80" "(0::real) \<le> 70" "(70::real) \<le> 80"
    "(0::real) \<le> 20" "(20::real) \<le> 80" "(0::real) \<le> 100" "(100::real) \<le> 220"
    "(0::real) \<le> 150" "(150::real) \<le> 220" "(0::real) \<le> 220" "(220::real) \<le> 220"
    by simp_all
  have s: "80 * radial_ratio sz x y = radial_ratio sz x y * 80"
    "70 * radial_ratio sz x y = radial_ratio sz x y * 70"
    "20 * radial_ratio sz x y = radial_ratio sz x y * 20"
    by (rule mult.commute)+
  show "\<bar>double_add 100 (double_mul (zen_ratio sz x y) 80) -
      (100 + 80 * radial_ratio sz x y)\<bar> \<le> 1 / 2 ^ 43"
    unfolding double_add_def double_mul_def s
    by (rule channel_error(1) [OF t c k(1,2,7,8)])
  show "\<bar>double_sub 150 (double_mul (zen_ratio sz x y) 70) -
      (150 - 70 * radial_ratio sz x y)\<bar> \<le> 1 / 2 ^ 43"
    unfolding double_sub_def double_mul_def s
    by (rule channel_error(2) [OF t c k(3,4,9,10)])
  show "\<bar>double_sub 220 (double_mul (zen_ratio sz x y) 20) -
      (220 - 20 * radial_ratio sz x y)\<bar> \<le> 1 / 2 ^ 43"
    unfolding double_sub_def double_mul_def s
    by (rule channel_error(2) [OF t c k(5,6,11,12)])
qed

lemma close_nonneg:
  fixes v v' e :: real
  assumes "\<bar>v' - v\<bar> \<le> e" and "e \<le> 1" and "1 \<le> v"
  shows "0 \<le> v'"
  using assms by linarith

lemma zen_channel_floors:
  assumes "2 \<le> sz" and "0 \<le> x" and "x < int sz" and "0 \<le> y" and "y < int sz"
  shows "red (zen_color sz x y) = \<lfloor>double_add 100 (double_mul (zen_ratio sz x y) 80)\<rfloor>"
    and "green (zen_color sz x y) = \<lfloor>double_sub 150 (double_mul (zen_ratio sz x y) 70)\<rfloor>"
    and "blue (zen_color sz x y) = \<lfloor>double_sub 220 (double_mul (zen_ratio sz x y) 20)\<rfloor>"
proof -
  from radial_ratio_bounds [OF assms(2-5)]
  have t: "0 \<le> radial_ratio sz x y" "radial_ratio sz x y \<le> 1" by simp_all
  have e: "(1 / 2 ^ 43 :: real) \<le> 1" by simp
  from t have v: "1 \<le> 100 + 80 * radial_ratio sz x y" "1 \<le> 150 - 70 * radial_ratio sz x y"
    "1 \<le> 220 - 20 * radial_ratio sz x y" by linarith+
  have "0 \<le> double_add 100 (double_mul (zen_ratio sz x y) 80)"
    by (rule close_nonneg [OF zen_channel_values(1) [OF assms] e v(1)])
  then show "red (zen_color sz x y) = \<lfloor>double_add 100 (double_mul (zen_ratio sz x y) 80)\<rfloor>"
    by (simp only: zen_color_def red.simps py_int_floor)
  have "0 \<le> double_sub 150 (double_mul (zen_ratio sz x y) 70)"
    by (rule close_nonneg [OF zen_channel_values(2) [OF assms] e v(2)])
  then show "green (zen_color sz x y) = \<lfloor>double_sub 150 (double_mul (zen_ratio sz x y) 70)\<rfloor>"
    by (simp only: zen_color_def green.simps py_int_floor)
  have "0 \<le> double_sub 220 (double_mul (zen_ratio sz x y) 20)"
    by (rule close_nonneg [OF zen_channel_values(3) [OF assms] e v(3)])
  then show "blue (zen_color sz x y) = \<lfloor>double_sub 220 (double_mul (zen_ratio sz x y) 20)\<rfloor>"
    by (simp only: zen_color_def blue.simps py_int_floor)
qed

lemma zen_channels_close:
  assumes "2 \<le> sz" and "0 \<le> x" and "x < int sz" and "0 \<le> y" and "y < int sz"
  shows "\<bar>red (zen_color sz x y) - red (radial_color sz x y)\<bar> \<le> 1"
    and "\<bar>green (zen_color sz x y) - green (radial_color sz x y)\<bar> \<le> 1"
    and "\<bar>blue (zen_color sz x y) - blue (radial_color sz x y)\<bar> \<le> 1"
  unfolding zen_channel_floors [OF assms] radial_color_def red.simps green.simps blue.simps
  by (rule floor_close, rule zen_channel_values [OF assms])+

lemma zen_channels_equal:
  assumes "2 \<le> sz" and "0 \<le> x" and "x < int sz" and "0 \<le> y" and "y < int sz"
  shows "clear_of_integers (100 + 80 * radial_ratio sz x y) \<Longrightarrow>
      red (zen_color sz x y) = red (radial_color sz x y)"
    and "clear_of_integers (150 - 70 * radial_ratio sz x y) \<Longrightarrow>
      green (zen_color sz x y) = green (radial_color sz x y)"
    and "clear_of_integers (220 - 20 * radial_ratio sz x y) \<Longrightarrow>
      blue (zen_color sz x y) = blue (radial_color sz x y)"
  unfolding zen_channel_floors [OF assms] radial_color_def red.simps green.simps blue.simps
    clear_of_integers_def
  by (rule floor_same, rule zen_channel_values [OF assms], simp_all only:)+

lemma zen_background_pass_calls:
  assumes "2 \<le> sz" and "img < length st"
  shows "zen_background_pass img sz st = Inr (extend img (zen_background_calls sz) st)"
proof -
  let ?c = "int sz div 2"
  let ?m = "double_sqrt (py_float (?c\<^sup>2 + ?c\<^sup>2))"
  have row: "row_body img sz ?c ?c ?m y s =
      Inr (extend img (map (\<lambda>x. Putpixel (x, y) (zen_color sz x y)) (py_range (int sz))) s)"
    if "y \<in> set (py_range (int sz))" "img < length s" for y s
    unfolding row_body_def
  proof (rule for_each_calls [OF _ that(2)])
    fix x s'
    assume "x \<in> set (py_range (int sz))"
    have "zen_pixel ?c ?c ?m x y = Inr (zen_color sz x y)"
      by (rule zen_pixel_color [OF assms(1)])
    then show "pixel_body img ?c ?c ?m y x s' =
        Inr (draw_on img (Putpixel (x, y) (zen_color sz x y)) s')"
      unfolding pixel_body_def putpixel_def by (simp only: sum.case)
  qed
  show ?thesis
    unfolding zen_background_pass_def Let_def zen_background_calls_def
    by (rule for_each_extends [OF row assms(2)])
qed

lemma zen_background_pass_fresh:
  "2 \<le> sz \<Longrightarrow> zen_background_pass (length st) sz (st @ im # extra) =
     Inr (st @ append_calls (zen_background_calls sz) im # extra)"
  by (simp add: zen_background_pass_calls extend_fresh)

lemma zen_background_pass_one:
  "zen_background_pass img (Suc 0) st = Inl ZeroDivisionError"
  by (simp add: zen_background_pass_def py_range_def row_body_def pixel_body_def zen_pixel_def
      double_div_def double_sqrt_def py_float_def round_double_zero)

lemma zen_background_pass_zero:
  "zen_background_pass img 0 st = Inr st"
  by (simp add: zen_background_pass_def py_range_def)

lemma draws_ring_body:
  assumes "i \<in> set (py_range 5)"
  shows "draws (\<lambda>img. ring_body img sz center 5 i)"
proof -
  from assms have "0 \<le> i" by (simp add: in_py_range)
  then have "0 \<le> ring_radius sz 5 i"
    by (simp add: ring_radius_def max_circle_radius_def)
  then show ?thesis
    unfolding ring_body_def Let_def by (rule draws_circle)
qed

text \<open>
  The same for \<^verbatim>\<open>create_zen_icon\<close> at every size but 1. At size 1 the centre is
  \<open>(0, 0)\<close>, \<^verbatim>\<open>max_radius\<close> is \<open>0\<close> and the division for the first pixel raises.
\<close>

lemma zen_closed_form:
  assumes "sz \<noteq> 1"
  shows "\<exists>cs extra. \<forall>st. create_zen_icon sz st =
     Inr (length st, st @ Image Mode_RGB sz sz (zen_background_calls sz @ cs) # extra)"
proof -
  let ?center = "(int sz div 2, int sz div 2)"
  have "draws (\<lambda>img. for_each (ring_body img sz ?center 5) (py_range 5))"
    by (rule draws_for_each) (rule draws_ring_body)
  from draws_fresh [OF this] obtain c1 e1 where ring: "\<And>st im extra.
      for_each (ring_body (length st) sz ?center 5) (py_range 5) (st @ im # extra) =
      Inr (st @ append_calls c1 im # (extra @ e1))"
    by blast
  have "draws (\<lambda>img. draw_ellipse img (circle_bbox ?center (zen_center_radius sz))
      (Some (Rgba 255 255 255 230)) None 1)"
    by (rule draws_circle) (simp add: zen_center_radius_def)
  from draws_fresh [OF this] obtain c2 e2 where dot: "\<And>st im extra.
      draw_ellipse (length st) (circle_bbox ?center (zen_center_radius sz))
        (Some (Rgba 255 255 255 230)) None 1 (st @ im # extra) =
      Inr (st @ append_calls c2 im # (extra @ e2))"
    by blast
  have bg: "zen_background_pass (length st) sz (st @ im # extra) =
     Inr (st @ append_calls (zen_background_calls sz) im # extra)" for st im extra
  proof (cases "sz = 0")
    case True
    then show ?thesis
      by (simp add: zen_background_pass_zero zen_background_calls_def py_range_def
          append_calls_Nil)
  next
    case False
    with assms have "2 \<le> sz" by simp
    then show ?thesis by (rule zen_background_pass_fresh)
  qed
  have "create_zen_icon sz st =
     Inr (length st, st @ Image Mode_RGB sz sz (zen_background_calls sz @ (c1 @ c2)) #
       (e1 @ e2))" for st
    by (simp add: create_zen_icon_def Image_new_def Let_def bg ring dot)
  then show ?thesis by blast
qed

lemma zen_one_pixel: "create_zen_icon 1 st = Inl ZeroDivisionError"
  by (simp add: create_zen_icon_def Image_new_def zen_background_pass_one)

subsection \<open>The pixels of the background passes\<close>

lemma last_write_append:
  "last_write (cs @ later) x y =
     (case last_write later x y of Some v \<Rightarrow> Some v | None \<Rightarrow> last_write cs x y)"
  by (induction cs) (simp_all split: option.splits)

lemma last_write_None:
  "\<forall>c \<in> set cs. \<not> covers c x y \<Longrightarrow> last_write cs x y = None"
  by (induction cs) simp_all

lemma last_write_Some:
  "\<exists>c \<in> set cs. covers c x y \<Longrightarrow> \<forall>c \<in> set cs. covers c x y \<longrightarrow> ink c = Some v \<Longrightarrow>
   last_write cs x y = Some v"
proof (induction cs)
  case Nil
  then show ?case by simp
next
  case (Cons c cs)
  show ?case
  proof (cases "\<exists>c \<in> set cs. covers c x y")
    case True
    with Cons have "last_write cs x y = Some v" by simp
    then show ?thesis by simp
  next
    case False
    with Cons.prems have c: "covers c x y" "ink c = Some v" by auto
    from False have "last_write cs x y = None" by (simp add: last_write_None)
    with c show ?thesis by simp
  qed
qed

lemma last_write_prefix:
  "last_write cs x y \<noteq> None \<Longrightarrow> last_write (cs @ later) x y \<noteq> None"
  by (simp add: last_write_append split: option.splits)

lemma written_background:
  assumes "0 \<le> x" "x < int sz" "0 \<le> y" "y < int sz"
  shows "last_write (background_calls sz) x y = Some (gradient_color (real_of_int y / real sz))"
proof (rule last_write_Some)
  have "Line (0, y) (int sz, y) (gradient_color (real_of_int y / real sz)) \<in>
      set (background_calls sz)"
    using assms by (simp add: background_calls_def in_py_range image_iff)
  moreover have "covers (Line (0, y) (int sz, y) (gradient_color (real_of_int y / real sz))) x y"
    using assms by simp
  ultimately show "\<exists>c \<in> set (background_calls sz). covers c x y" by blast
  show "\<forall>c \<in> set (background_calls sz). covers c x y \<longrightarrow>
      ink c = Some (gradient_color (real_of_int y / real sz))"
    by (auto simp: background_calls_def)
qed

lemma zen_background_call_cases:
  assumes "c \<in> set (zen_background_calls sz)"
  obtains x' y' where "c = Putpixel (x', y') (zen_color sz x' y')"
proof -
  from assms obtain row where "row \<in> set (map (\<lambda>y. map (\<lambda>x. Putpixel (x, y) (zen_color sz x y))
      (py_range (int sz))) (py_range (int sz)))" and c: "c \<in> set row"
    unfolding zen_background_calls_def set_concat by blast
  then obtain y' where "row = map (\<lambda>x. Putpixel (x, y') (zen_color sz x y')) (py_range (int sz))"
    unfolding set_map by blast
  with c obtain x' where "c = Putpixel (x', y') (zen_color sz x' y')"
    by auto
  then show thesis by (rule that)
qed

lemma written_zen_background:
  assumes "0 \<le> x" "x < int sz" "0 \<le> y" "y < int sz"
  shows "last_write (zen_background_calls sz) x y = Some (zen_color sz x y)"
proof (rule last_write_Some)
  have xin: "x \<in> set (py_range (int sz))" and yin: "y \<in> set (py_range (int sz))"
    using assms by (simp_all add: in_py_range)
  have "Putpixel (x, y) (zen_color sz x y) \<in>
      (\<lambda>x'. Putpixel (x', y) (zen_color sz x' y)) ` set (py_range (int sz))"
    using xin by (rule image_eqI [OF refl])
  then have "Putpixel (x, y) (zen_color sz x y) \<in>
      (\<Union>y' \<in> set (py_range (int sz)).
         (\<lambda>x'. Putpixel (x', y') (zen_color sz x' y')) ` set (py_range (int sz)))"
    using yin by (rule UN_I [rotated])
  then have "Putpixel (x, y) (zen_color sz x y) \<in> set (zen_background_calls sz)"
    by (simp only: zen_background_calls_def set_concat set_map image_image)
  moreover have "covers (Putpixel (x, y) (zen_color sz x y)) x y" by simp
  ultimately show "\<exists>c \<in> set (zen_background_calls sz). covers c x y" by blast
  show "\<forall>c \<in> set (zen_background_calls sz). covers c x y \<longrightarrow>
      ink c = Some (zen_color sz x y)"
  proof (intro ballI impI)
    fix c
    assume cin: "c \<in> set (zen_background_calls sz)" and cov: "covers c x y"
    from cin obtain x' y' where "c = Putpixel (x', y') (zen_color sz x' y')"
      by (rule zen_background_call_cases)
    with cov show "ink c = Some (zen_color sz x y)" by simp
  qed
qed

lemma painted_after:
  assumes "0 \<le> x" "x < int sz" "0 \<le> y" "y < int sz"
    and "last_write background x y \<noteq> None"
  shows "written_pixel (Image m sz sz (background @ later)) x y \<noteq> None"
  using assms by (simp add: written_pixel_def last_write_prefix)

lemma breathing_circles_fully_painted:
  "\<exists>img st'. draw_breathing_circles_icon sz st = Inr (img, st') \<and>
     width (st' ! img) = sz \<and> height (st' ! img) = sz \<and>
     (\<forall>x y. 0 \<le> x \<and> x < int sz \<and> 0 \<le> y \<and> y < int sz \<longrightarrow>
        written_pixel (st' ! img) x y \<noteq> None)"
proof -
  from icon_closed_form [of sz] obtain cs extra where
    r: "\<And>st. draw_breathing_circles_icon sz st =
      Inr (length st, st @ Image Mode_RGB sz sz (background_calls sz @ cs) # extra)"
    by blast
  have "written_pixel (Image Mode_RGB sz sz (background_calls sz @ cs)) x y \<noteq> None"
    if "0 \<le> x" "x < int sz" "0 \<le> y" "y < int sz" for x y
    using that by (intro painted_after) (simp_all add: written_background)
  then show ?thesis by (simp add: r)
qed

lemma zen_fully_painted:
  assumes "sz \<noteq> 1"
  shows "\<exists>img st'. create_zen_icon sz st = Inr (img, st') \<and>
     width (st' ! img) = sz \<and> height (st' ! img) = sz \<and>
     (\<forall>x y. 0 \<le> x \<and> x < int sz \<and> 0 \<le> y \<and> y < int sz \<longrightarrow>
        written_pixel (st' ! img) x y \<noteq> None)"
proof -
  from zen_closed_form [OF assms] obtain cs extra where
    r: "\<And>st. create_zen_icon sz st =
      Inr (length st, st @ Image Mode_RGB sz sz (zen_background_calls sz @ cs) # extra)"
    by blast
  have "written_pixel (Image Mode_RGB sz sz (zen_background_calls sz @ cs)) x y \<noteq> None"
    if "0 \<le> x" "x < int sz" "0 \<le> y" "y < int sz" for x y
    using that by (intro painted_after) (simp_all add: written_zen_background)
  then show ?thesis by (simp add: r)
qed

lemma interpolate_floor:
  "0 \<le> real_of_int a + real_of_int (b - a) * t \<Longrightarrow>
   interpolate a b t = \<lfloor>real_of_int a + real_of_int (b - a) * t\<rfloor>"
  by (simp add: interpolate_def py_int_floor)

lemma progress_bounds:
  assumes "0 \<le> y" "y < int sz"
  shows "0 \<le> real_of_int y / real sz" "real_of_int y / real sz < 1"
proof -
  from assms have "0 < real sz" by simp
  moreover from assms have "real_of_int y < real sz" by linarith
  ultimately show "real_of_int y / real sz < 1" by simp
  from assms show "0 \<le> real_of_int y / real sz" by simp
qed

lemma gradient_color_spec:
  assumes "0 \<le> y" "y < int sz"
  shows "gradient_color (real_of_int y / real sz) = vertical_gradient_spec sz y"
proof -
  let ?t = "real_of_int y / real sz"
  note t = progress_bounds [OF assms]
  have r: "interpolate 64 46 ?t = \<lfloor>real_of_int 64 + real_of_int (46 - 64) * ?t\<rfloor>"
    by (rule interpolate_floor) (use t in simp)
  have g: "interpolate 56 38 ?t = \<lfloor>real_of_int 56 + real_of_int (38 - 56) * ?t\<rfloor>"
    by (rule interpolate_floor) (use t in simp)
  have b: "interpolate 107 89 ?t = \<lfloor>real_of_int 107 + real_of_int (89 - 107) * ?t\<rfloor>"
    by (rule interpolate_floor) (use t in simp)
  show ?thesis
    by (simp only: gradient_color_def vertical_gradient_spec_def LIGHTER_INDIGO_def
        DEEP_INDIGO_def Let_def prod.case r g b)
qed

lemma spec_channels:
  "red (vertical_gradient_spec sz y) =
     \<lfloor>real_of_int 64 + real_of_int (46 - 64) * (real_of_int y / real sz)\<rfloor>"
  "green (vertical_gradient_spec sz y) =
     \<lfloor>real_of_int 56 + real_of_int (38 - 56) * (real_of_int y / real sz)\<rfloor>"
  "blue (vertical_gradient_spec sz y) =
     \<lfloor>real_of_int 107 + real_of_int (89 - 107) * (real_of_int y / real sz)\<rfloor>"
  by (simp_all only: vertical_gradient_spec_def LIGHTER_INDIGO_def DEEP_INDIGO_def Let_def
      prod.case red.simps green.simps blue.simps)

lemma lerp_mono:
  assumes "b \<le> a" and "t \<le> (u::real)"
  shows "\<lfloor>real_of_int a + real_of_int (b - a) * u\<rfloor> \<le> \<lfloor>real_of_int a + real_of_int (b - a) * t\<rfloor>"
proof (rule floor_mono)
  from assms(1) have "real_of_int (b - a) \<le> 0" by simp
  with assms(2) have "real_of_int (b - a) * u \<le> real_of_int (b - a) * t"
    by (rule mult_left_mono_neg)
  then show "real_of_int a + real_of_int (b - a) * u \<le> real_of_int a + real_of_int (b - a) * t"
    by simp
qed

lemma lerp_bounds:
  assumes "b \<le> a" and "0 \<le> t" and "t \<le> (1::real)"
  shows "b \<le> \<lfloor>real_of_int a + real_of_int (b - a) * t\<rfloor>"
    and "\<lfloor>real_of_int a + real_of_int (b - a) * t\<rfloor> \<le> a"
proof -
  have "\<lfloor>real_of_int a + real_of_int (b - a) * 1\<rfloor> \<le> \<lfloor>real_of_int a + real_of_int (b - a) * t\<rfloor>"
    by (rule lerp_mono [OF assms(1,3)])
  then show "b \<le> \<lfloor>real_of_int a + real_of_int (b - a) * t\<rfloor>" by simp
  have "\<lfloor>real_of_int a + real_of_int (b - a) * t\<rfloor> \<le> \<lfloor>real_of_int a + real_of_int (b - a) * 0\<rfloor>"
    by (rule lerp_mono [OF assms(1,2)])
  then show "\<lfloor>real_of_int a + real_of_int (b - a) * t\<rfloor> \<le> a" by simp
qed

text \<open>
  Claim C5. In the background pass of \<^verbatim>\<open>draw_breathing_circles_icon\<close>, for a row \<open>y\<close> of
  an image of size \<open>n\<close>, the colour computed for the row is the one the specification
  words (each channel the floor of \<open>start + (end - start) * y / n\<close>, from
  \<^verbatim>\<open>LIGHTER_INDIGO\<close> to \<^verbatim>\<open>DEEP_INDIGO\<close>), and after the pass every pixel of the row holds
  it. The top row is \<^verbatim>\<open>LIGHTER_INDIGO\<close>; down the rows no channel increases and none
  falls below \<^verbatim>\<open>DEEP_INDIGO\<close>; every channel lies in \<open>[0, 255]\<close>.
\<close>

theorem vertical_gradient_rows:
  assumes "0 \<le> y" and "y \<le> y'" and "y' < int sz" and "0 \<le> x" and "x < int sz"
  shows "background_color sz y = Inr (vertical_gradient_spec sz y) \<and>
    (\<exists>st'. background_pass (length st) sz (st @ [Image Mode_RGB sz sz []]) = Inr st' \<and>
       written_pixel (st' ! length st) x y = Some (vertical_gradient_spec sz y)) \<and>
    vertical_gradient_spec sz 0 = (case LIGHTER_INDIGO of (r, g, b) \<Rightarrow> Rgb r g b) \<and>
    red (vertical_gradient_spec sz y') \<le> red (vertical_gradient_spec sz y) \<and>
    green (vertical_gradient_spec sz y') \<le> green (vertical_gradient_spec sz y) \<and>
    blue (vertical_gradient_spec sz y') \<le> blue (vertical_gradient_spec sz y) \<and>
    (case DEEP_INDIGO of (r, g, b) \<Rightarrow>
       r \<le> red (vertical_gradient_spec sz y') \<and> g \<le> green (vertical_gradient_spec sz y') \<and>
       b \<le> blue (vertical_gradient_spec sz y')) \<and>
    0 \<le> red (vertical_gradient_spec sz y) \<and> red (vertical_gradient_spec sz y) \<le> 255 \<and>
    0 \<le> green (vertical_gradient_spec sz y) \<and> green (vertical_gradient_spec sz y) \<le> 255 \<and>
    0 \<le> blue (vertical_gradient_spec sz y) \<and> blue (vertical_gradient_spec sz y) \<le> 255"
proof -
  from assms have y: "0 \<le> y" "y < int sz" and y': "0 \<le> y'" "y' < int sz" by simp_all
  then have sz: "sz \<noteq> 0" by auto
  have a: "background_color sz y = Inr (vertical_gradient_spec sz y)"
    using sz by (simp add: background_color_def py_div_def gradient_color_spec [OF y])
  have "background_pass (length st) sz (st @ [Image Mode_RGB sz sz []]) =
      Inr (st @ [Image Mode_RGB sz sz (background_calls sz)])"
    by (simp add: background_pass_fresh)
  moreover have "written_pixel ((st @ [Image Mode_RGB sz sz (background_calls sz)]) ! length st)
      x y = Some (vertical_gradient_spec sz y)"
    using assms y by (simp add: written_pixel_def written_background gradient_color_spec)
  ultimately have b: "\<exists>st'. background_pass (length st) sz (st @ [Image Mode_RGB sz sz []]) =
      Inr st' \<and> written_pixel (st' ! length st) x y = Some (vertical_gradient_spec sz y)"
    by blast
  have c: "vertical_gradient_spec sz 0 = (case LIGHTER_INDIGO of (r, g, b) \<Rightarrow> Rgb r g b)"
    by (simp add: vertical_gradient_spec_def LIGHTER_INDIGO_def DEEP_INDIGO_def)
  note t = progress_bounds [OF y]
  note t' = progress_bounds [OF y']
  have tt: "real_of_int y / real sz \<le> real_of_int y' / real sz"
    using assms by (simp add: divide_right_mono)
  have d: "red (vertical_gradient_spec sz y') \<le> red (vertical_gradient_spec sz y)"
    "green (vertical_gradient_spec sz y') \<le> green (vertical_gradient_spec sz y)"
    "blue (vertical_gradient_spec sz y') \<le> blue (vertical_gradient_spec sz y)"
    unfolding spec_channels by (rule lerp_mono [OF _ tt], simp)+
  have t1: "real_of_int y / real sz \<le> 1" "real_of_int y' / real sz \<le> 1"
    using t(2) t'(2) by simp_all
  have e: "(case DEEP_INDIGO of (r, g, b) \<Rightarrow>
       r \<le> red (vertical_gradient_spec sz y') \<and> g \<le> green (vertical_gradient_spec sz y') \<and>
       b \<le> blue (vertical_gradient_spec sz y'))"
    unfolding spec_channels DEEP_INDIGO_def prod.case
    by (intro conjI lerp_bounds(1) t'(1) t1(2)) simp_all
  have lo: "0 \<le> red (vertical_gradient_spec sz y)" "0 \<le> green (vertical_gradient_spec sz y)"
    "0 \<le> blue (vertical_gradient_spec sz y)"
    unfolding spec_channels
    using lerp_bounds(1) [OF _ t(1) t1(1), of 46 64] lerp_bounds(1) [OF _ t(1) t1(1), of 38 56]
      lerp_bounds(1) [OF _ t(1) t1(1), of 89 107] by linarith+
  have hi: "red (vertical_gradient_spec sz y) \<le> 255" "green (vertical_gradient_spec sz y) \<le> 255"
    "blue (vertical_gradient_spec sz y) \<le> 255"
    unfolding spec_channels
    using lerp_bounds(2) [OF _ t(1) t1(1), of 46 64] lerp_bounds(2) [OF _ t(1) t1(1), of 38 56]
      lerp_bounds(2) [OF _ t(1) t1(1), of 89 107] by linarith+
  from lo hi
  have f: "0 \<le> red (vertical_gradient_spec sz y) \<and> red (vertical_gradient_spec sz y) \<le> 255 \<and>
    0 \<le> green (vertical_gradient_spec sz y) \<and> green (vertical_gradient_spec sz y) \<le> 255 \<and>
    0 \<le> blue (vertical_gradient_spec sz y) \<and> blue (vertical_gradient_spec sz y) \<le> 255"
    by blast
  from a b c d e f show ?thesis by blast
qed

theorem vertical_gradient_rows_witness:
  "(0::int) \<le> 14 \<and> (14::int) \<le> 19 \<and> 19 < int 20 \<and> (0::int) \<le> 3 \<and> 3 < int 20 \<and>
   background_color 20 14 = Inr (Rgb 51 43 94) \<and>
   vertical_gradient_spec 20 14 = Rgb 51 43 94 \<and>
   vertical_gradient_spec 20 19 = Rgb 46 38 89"
proof -
  have v: "vertical_gradient_spec 20 14 = Rgb 51 43 94" "vertical_gradient_spec 20 19 = Rgb 46 38 89"
    by (simp_all add: vertical_gradient_spec_def LIGHTER_INDIGO_def DEEP_INDIGO_def)
  from vertical_gradient_rows [of 14 19 20 3 "[]"] v show ?thesis by simp
qed

text \<open>
  Claim C8, as stated, fails on two points. The channels are not always the floors of the
  exact values \<open>100 + 80 t\<close>, \<open>150 - 70 t\<close>, \<open>220 - 20 t\<close>. The code evaluates them in double
  precision, and where an exact value is an integer the rounded one can fall just below
  it. In the image of size 434 the pixel \<open>(31, 31)\<close> has \<open>t = 6 / 7\<close>, so \<open>150 - 70 t\<close> is
  exactly \<open>90\<close>; the code's doubles give \<open>89.99999999999999\<close>, and the pixel is written
  with green \<open>89\<close> where the formula of the claim gives \<open>90\<close>. And in an image of one
  pixel no colour is computed at all: the divisor is \<open>0\<close> and the pass raises
  \<^verbatim>\<open>ZeroDivisionError\<close>.
\<close>

theorem radial_formula_off_by_one:
  "zen_pixel (int 434 div 2) (int 434 div 2)
     (double_sqrt (py_float ((int 434 div 2)\<^sup>2 + (int 434 div 2)\<^sup>2))) 31 31 =
     Inr (Rgb 168 89 202) \<and>
   zen_background_pass 0 434 [Image Mode_RGB 434 434 []] =
     Inr [Image Mode_RGB 434 434 (zen_background_calls 434)] \<and>
   written_pixel (Image Mode_RGB 434 434 (zen_background_calls 434)) 31 31 =
     Some (Rgb 168 89 202) \<and>
   radial_ratio 434 31 31 = 6 / 7 \<and>
   radial_color 434 31 31 = Rgb 168 90 202 \<and>
   zen_background_pass 0 1 [Image Mode_RGB 1 1 []] = Inl ZeroDivisionError"
proof -
  have c: "int 434 div 2 = 217" by simp
  have one: "zen_background_pass 0 1 [Image Mode_RGB 1 1 []] = Inl ZeroDivisionError"
    using zen_background_pass_one [of 0 "[Image Mode_RGB 1 1 []]"] by simp
  have D: "py_float ((31 - 217)\<^sup>2 + (31 - 217)\<^sup>2) = 69192"
    using round_double_dyadic [where x = "69192 :: real" and n = 36 and k = 4754838034317312]
    by (simp add: py_float_def)
  have M: "py_float (217\<^sup>2 + 217\<^sup>2) = 94178"
    using round_double_dyadic [where x = "94178 :: real" and n = 36 and k = 6471862880043008]
    by (simp add: py_float_def)
  have d: "double_sqrt 69192 = 4627514105819507 / 2 ^ 44"
    unfolding double_sqrt_def
    by (rule double_sqrt_dyadic [where n = 44 and k = 4627514105819507, unfolded of_int_numeral]) simp_all
  have m: "double_sqrt 94178 = 5398766456789424 / 2 ^ 44"
    unfolding double_sqrt_def
    by (rule double_sqrt_dyadic [where n = 44 and k = 5398766456789424, unfolded of_int_numeral]) simp_all
  have nz: "(5398766456789424 / 2 ^ 44 = (0::real)) = False"
    by simp
  have t: "round_double (4627514105819507 / 2 ^ 44 / (5398766456789424 / 2 ^ 44)) = 7720456504063709 / 2 ^ 53"
    using round_double_dyadic [where x = "4627514105819507 / 2 ^ 44 / (5398766456789424 / 2 ^ 44)" and n = 53 and k = 7720456504063709]
    by simp
  have r1: "double_mul (7720456504063709 / 2 ^ 53) 80 = 4825285315039818 / 2 ^ 46"
    using round_double_dyadic [where x = "7720456504063709 / 2 ^ 53 * 80" and n = 46 and k = 4825285315039818]
    by (simp add: double_mul_def)
  have r2: "double_add 100 (4825285315039818 / 2 ^ 46) = 5931079866403109 / 2 ^ 45"
    using round_double_dyadic [where x = "100 + 4825285315039818 / 2 ^ 46" and n = 45 and k = 5931079866403109]
    by (simp add: double_add_def)
  have r3: "py_int (5931079866403109 / 2 ^ 45 :: real) = 168"
    by (simp add: py_int_def)
  have g1: "double_mul (7720456504063709 / 2 ^ 53) 70 = 8444249301319682 / 2 ^ 47"
    using round_double_dyadic [where x = "7720456504063709 / 2 ^ 53 * 70" and n = 47 and k = 8444249301319682]
    by (simp add: double_mul_def)
  have g2: "double_sub 150 (8444249301319682 / 2 ^ 47) = 6333186975989759 / 2 ^ 46"
    using round_double_dyadic [where x = "150 - 8444249301319682 / 2 ^ 47" and n = 46 and k = 6333186975989759]
    by (simp add: double_sub_def)
  have g3: "py_int (6333186975989759 / 2 ^ 46 :: real) = 89"
    by (simp add: py_int_def)
  have b1: "double_mul (7720456504063709 / 2 ^ 53) 20 = 4825285315039818 / 2 ^ 48"
    using round_double_dyadic [where x = "7720456504063709 / 2 ^ 53 * 20" and n = 48 and k = 4825285315039818]
    by (simp add: double_mul_def)
  have b2: "double_sub 220 (4825285315039818 / 2 ^ 48) = 7137401195163063 / 2 ^ 45"
    using round_double_dyadic [where x = "220 - 4825285315039818 / 2 ^ 48" and n = 45 and k = 7137401195163063]
    by (simp add: double_sub_def)
  have b3: "py_int (7137401195163063 / 2 ^ 45 :: real) = 202"
    by (simp add: py_int_def)
  have px: "zen_pixel 217 217 (double_sqrt (py_float (217\<^sup>2 + 217\<^sup>2))) 31 31 =
      Inr (Rgb 168 89 202)"
    by (simp only: zen_pixel_def Let_def D d M m double_div_def nz if_False sum.case t
        r1 r2 r3 g1 g2 g3 b1 b2 b3)
  have zc: "zen_color 434 31 31 = Rgb 168 89 202"
    using zen_pixel_color [of 434 31 31] px by (simp only: c) simp
  have pass: "zen_background_pass 0 434 [Image Mode_RGB 434 434 []] =
      Inr [Image Mode_RGB 434 434 (zen_background_calls 434)]"
    using zen_background_pass_fresh [of 434 "[]" "Image Mode_RGB 434 434 []" "[]"] by simp
  have wr: "written_pixel (Image Mode_RGB 434 434 (zen_background_calls 434)) 31 31 =
      Some (Rgb 168 89 202)"
    using written_zen_background [of 31 434 31] zc by (simp add: written_pixel_def)
  have "radial_ratio 434 31 31 = sqrt 69192 / sqrt 94178"
    by (simp add: radial_ratio_def)
  also have "\<dots> = sqrt (69192 / 94178)" by (simp only: real_sqrt_divide)
  also have "(69192 / 94178 :: real) = (6 / 7)\<^sup>2" by (simp add: power2_eq_square)
  also have "sqrt ((6 / 7 :: real)\<^sup>2) = 6 / 7" by simp
  finally have rr: "radial_ratio 434 31 31 = 6 / 7" .
  have rc: "radial_color 434 31 31 = Rgb 168 90 202"
    unfolding radial_color_def rr by simp
  from px pass wr rr rc one show ?thesis by (simp only: c simp_thms)
qed

text \<open>
  Claim C8, amended. In the background pass of \<^verbatim>\<open>create_zen_icon\<close>, for a pixel \<open>(x, y)\<close>
  of an image of size \<open>n \<ge> 2\<close>, the colour computed, and held by the pixel after the pass,
  is \<open>(int (100 + 80 t'), int (150 - 70 t'), int (220 - 20 t'))\<close> evaluated in double
  precision, where \<open>t'\<close> is the double-precision value of the ratio \<open>t\<close> of the claim: the
  distance from the centre \<open>(n div 2, n div 2)\<close> over \<open>sqrt ((n div 2)\<^sup>2 + (n div 2)\<^sup>2)\<close>.
  \<open>t'\<close> is within \<open>6 / 2 ^ 53\<close> of \<open>t\<close>. Each channel is within 1 of the floor the claim
  gives, and equal to it whenever the exact value \<open>100 + 80 t\<close>, \<open>150 - 70 t\<close> or
  \<open>220 - 20 t\<close> is at least \<open>1 / 2 ^ 43\<close> away from the integers around it. The ratio \<open>t\<close>
  lies in \<open>[0, 1]\<close> and is \<open>1\<close> at the corner \<open>(0, 0)\<close>, the farthest from the centre.
  The size \<open>n = 1\<close>, where the pass raises, is left out.
\<close>

theorem radial_gradient_pixels:
  assumes "2 \<le> sz" and "0 \<le> x" and "x < int sz" and "0 \<le> y" and "y < int sz"
  shows "zen_pixel (int sz div 2) (int sz div 2)
      (double_sqrt (py_float ((int sz div 2)\<^sup>2 + (int sz div 2)\<^sup>2))) x y =
      Inr (zen_color sz x y) \<and>
    (\<exists>st'. zen_background_pass (length st) sz (st @ [Image Mode_RGB sz sz []]) = Inr st' \<and>
       written_pixel (st' ! length st) x y = Some (zen_color sz x y)) \<and>
    \<bar>zen_ratio sz x y - radial_ratio sz x y\<bar> \<le> 6 / 2 ^ 53 \<and>
    \<bar>red (zen_color sz x y) - red (radial_color sz x y)\<bar> \<le> 1 \<and>
    \<bar>green (zen_color sz x y) - green (radial_color sz x y)\<bar> \<le> 1 \<and>
    \<bar>blue (zen_color sz x y) - blue (radial_color sz x y)\<bar> \<le> 1 \<and>
    (clear_of_integers (100 + 80 * radial_ratio sz x y) \<longrightarrow>
       red (zen_color sz x y) = red (radial_color sz x y)) \<and>
    (clear_of_integers (150 - 70 * radial_ratio sz x y) \<longrightarrow>
       green (zen_color sz x y) = green (radial_color sz x y)) \<and>
    (clear_of_integers (220 - 20 * radial_ratio sz x y) \<longrightarrow>
       blue (zen_color sz x y) = blue (radial_color sz x y)) \<and>
    0 \<le> radial_ratio sz x y \<and> radial_ratio sz x y \<le> 1 \<and> radial_ratio sz 0 0 = 1"
proof -
  have a: "zen_pixel (int sz div 2) (int sz div 2)
      (double_sqrt (py_float ((int sz div 2)\<^sup>2 + (int sz div 2)\<^sup>2))) x y =
      Inr (zen_color sz x y)"
    by (rule zen_pixel_color [OF assms(1)])
  have "zen_background_pass (length st) sz (st @ [Image Mode_RGB sz sz []]) =
      Inr (st @ [Image Mode_RGB sz sz (zen_background_calls sz)])"
    using assms(1) by (simp add: zen_background_pass_fresh)
  moreover have "written_pixel ((st @ [Image Mode_RGB sz sz (zen_background_calls sz)]) ! length st)
      x y = Some (zen_color sz x y)"
    using assms by (simp add: written_pixel_def written_zen_background)
  ultimately have b: "\<exists>st'. zen_background_pass (length st) sz (st @ [Image Mode_RGB sz sz []]) =
      Inr st' \<and> written_pixel (st' ! length st) x y = Some (zen_color sz x y)"
    by blast
  note c = zen_ratio_close [OF assms]
  note d = zen_channels_close [OF assms]
  note e = zen_channels_equal [OF assms]
  note f = radial_ratio_bounds [OF assms(2-5)]
  have g: "radial_ratio sz 0 0 = 1"
    using radial_norm_nonzero [OF assms(1)] by (simp add: radial_ratio_def)
  from a b c d e f g show ?thesis by blast
qed

theorem radial_gradient_pixels_witness:
  "(2::nat) \<le> 2 \<and> (0::int) \<le> 0 \<and> 0 < int 2 \<and> (0::int) \<le> 1 \<and> 1 < int 2 \<and>
   clear_of_integers (100 + 80 * radial_ratio 2 0 1) \<and>
   clear_of_integers (150 - 70 * radial_ratio 2 0 1) \<and>
   clear_of_integers (220 - 20 * radial_ratio 2 0 1) \<and>
   zen_pixel (int 2 div 2) (int 2 div 2)
     (double_sqrt (py_float ((int 2 div 2)\<^sup>2 + (int 2 div 2)\<^sup>2))) 0 1 = Inr (Rgb 156 100 205) \<and>
   zen_color 2 0 1 = Rgb 156 100 205 \<and> radial_color 2 0 1 = Rgb 156 100 205"
proof -
  have "sqrt 2 < 10000 / 7071" by (rule real_less_lsqrt) (simp_all add: power2_eq_square)
  moreover have "10000 / 7072 < sqrt 2" by (rule real_less_rsqrt) (simp add: power2_eq_square)
  moreover have r: "radial_ratio 2 0 1 = 1 / sqrt 2" by (simp add: radial_ratio_def)
  ultimately have lo: "7071 / 10000 < radial_ratio 2 0 1" and hi: "radial_ratio 2 0 1 < 7072 / 10000"
    unfolding r by (simp_all add: field_simps)
  have fl: "\<lfloor>100 + 80 * radial_ratio 2 0 1\<rfloor> = 156" "\<lfloor>150 - 70 * radial_ratio 2 0 1\<rfloor> = 100"
    "\<lfloor>220 - 20 * radial_ratio 2 0 1\<rfloor> = 205"
    using lo hi by linarith+
  have e: "(1 / 2 ^ 43 :: real) \<le> 1 / 1000" by simp
  have cl: "clear_of_integers (100 + 80 * radial_ratio 2 0 1)"
    "clear_of_integers (150 - 70 * radial_ratio 2 0 1)"
    "clear_of_integers (220 - 20 * radial_ratio 2 0 1)"
    unfolding clear_of_integers_def fl using lo hi e by auto
  have rc: "radial_color 2 0 1 = Rgb 156 100 205"
    by (simp only: radial_color_def fl)
  have prem: "(2::nat) \<le> 2" "(0::int) \<le> 0" "0 < int 2" "(0::int) \<le> 1" "1 < int 2"
    by simp_all
  note th = radial_gradient_pixels [OF prem, of "[]"]
  from th have px: "zen_pixel (int 2 div 2) (int 2 div 2)
      (double_sqrt (py_float ((int 2 div 2)\<^sup>2 + (int 2 div 2)\<^sup>2))) 0 1 = Inr (zen_color 2 0 1)"
    by (rule conjunct1)
  from th cl have ch: "red (zen_color 2 0 1) = red (radial_color 2 0 1)"
    "green (zen_color 2 0 1) = green (radial_color 2 0 1)"
    "blue (zen_color 2 0 1) = blue (radial_color 2 0 1)"
    by blast+
  have zc: "zen_color 2 0 1 = Rgb 156 100 205"
    using ch unfolding rc unfolding zen_color_def by simp
  from prem cl px [unfolded zc] zc rc show ?thesis by blast
qed

subsection \<open>Determinism\<close>

lemma allocating_deterministic:
  assumes "\<And>st. render st = Inr (length st, st @ im # extra)"
  shows "returned_image (render st1) = returned_image (render st2)"
    and "render_twice render st =
      (case returned_image (render st) of Inl e \<Rightarrow> Inl e | Inr im \<Rightarrow> Inr (im, im, im))"
  by (simp_all add: returned_image_def render_twice_def assms nth_append)

lemma raising_deterministic:
  assumes "\<And>st. render st = Inl e"
  shows "returned_image (render st1) = returned_image (render st2)"
    and "render_twice render st =
      (case returned_image (render st) of Inl e \<Rightarrow> Inl e | Inr im \<Rightarrow> Inr (im, im, im))"
  by (simp_all add: returned_image_def render_twice_def assms)

text \<open>
  Claim C2. Both renderers are deterministic: for a size \<open>n\<close>, the image handed back (or
  the exception) is the same whatever the store holds when the renderer is called, and
  two calls in a row hand back two images that are equal, the second call leaving the
  first image as it was.
\<close>

theorem renderers_deterministic:
  "returned_image (draw_breathing_circles_icon sz st1) =
     returned_image (draw_breathing_circles_icon sz st2) \<and>
   render_twice (draw_breathing_circles_icon sz) st =
     (case returned_image (draw_breathing_circles_icon sz st) of
        Inl e \<Rightarrow> Inl e | Inr im \<Rightarrow> Inr (im, im, im)) \<and>
   returned_image (create_zen_icon sz st1) = returned_image (create_zen_icon sz st2) \<and>
   render_twice (create_zen_icon sz) st =
     (case returned_image (create_zen_icon sz st) of
        Inl e \<Rightarrow> Inl e | Inr im \<Rightarrow> Inr (im, im, im))"
proof -
  from icon_closed_form [of sz] obtain cs extra where
    "\<And>st. draw_breathing_circles_icon sz st =
      Inr (length st, st @ Image Mode_RGB sz sz (background_calls sz @ cs) # extra)"
    by blast
  note a = allocating_deterministic [of "draw_breathing_circles_icon sz", OF this]
  have b: "returned_image (create_zen_icon sz st1) = returned_image (create_zen_icon sz st2) \<and>
    render_twice (create_zen_icon sz) st =
     (case returned_image (create_zen_icon sz st) of
        Inl e \<Rightarrow> Inl e | Inr im \<Rightarrow> Inr (im, im, im))"
  proof (cases "sz = 1")
    case True
    then have "\<And>st. create_zen_icon sz st = Inl ZeroDivisionError"
      by (simp only: zen_one_pixel)
    from raising_deterministic [of "create_zen_icon sz", OF this] show ?thesis by blast
  next
    case False
    from zen_closed_form [OF this] obtain cs extra where
      "\<And>st. create_zen_icon sz st =
        Inr (length st, st @ Image Mode_RGB sz sz (zen_background_calls sz @ cs) # extra)"
      by blast
    from allocating_deterministic [of "create_zen_icon sz", OF this] show ?thesis by blast
  qed
  from a b show ?thesis by blast
qed

subsection \<open>Small sizes\<close>

text \<open>
  Claim C4, at the size where the code departs from it. For one pixel,
  \<^verbatim>\<open>create_zen_icon\<close> raises \<^verbatim>\<open>ZeroDivisionError\<close> instead of returning a 1 by 1 image,
  while \<^verbatim>\<open>draw_breathing_circles_icon\<close> returns a 1 by 1 image whose pixel the background
  pass has written. (At every size \<^verbatim>\<open>draw_breathing_circles_icon\<close> returns a fully written
  square image, and so does \<^verbatim>\<open>create_zen_icon\<close> at every size but 1:
  \<open>breathing_circles_fully_painted\<close> and \<open>zen_fully_painted\<close> above.)
\<close>

theorem one_pixel_icon:
  "create_zen_icon 1 st = Inl ZeroDivisionError \<and>
   (\<exists>img st'. draw_breathing_circles_icon 1 st = Inr (img, st') \<and>
      width (st' ! img) = 1 \<and> height (st' ! img) = 1 \<and>
      written_pixel (st' ! img) 0 0 \<noteq> None)"
proof -
  from breathing_circles_fully_painted [of 1 st] obtain img st' where
    "draw_breathing_circles_icon 1 st = Inr (img, st')" "width (st' ! img) = 1"
    "height (st' ! img) = 1"
    "\<forall>x y. 0 \<le> x \<and> x < int 1 \<and> 0 \<le> y \<and> y < int 1 \<longrightarrow> written_pixel (st' ! img) x y \<noteq> None"
    by blast
  moreover from this(4) have "written_pixel (st' ! img) 0 0 \<noteq> None" by simp
  ultimately show ?thesis using zen_one_pixel [of st] by blast
qed

lemma gradient_body_no_zero_division:
  assumes "steps \<noteq> 0"
  shows "gradient_body img center start_radius end_radius start_color end_color steps i st \<noteq>
    Inl ZeroDivisionError"
proof -
  obtain x0 y0 x1 y1 where "circle_bbox center (real_of_int start_radius +
      real_of_int (end_radius - start_radius) * (real_of_int i / real_of_int steps)) =
      (x0, y0, x1, y1)"
    using prod_cases4 by blast
  then show ?thesis
    using assms
    by (auto simp: gradient_body_def py_div_def Let_def gradient_alpha_def draw_ellipse_def
        split: sum.splits color.splits if_splits)
qed

lemma create_radial_gradient_no_zero_division:
  "create_radial_gradient sz center start_radius end_radius start_color end_color st \<noteq>
     Inl ZeroDivisionError"
proof
  assume a: "create_radial_gradient sz center start_radius end_radius start_color end_color st =
    Inl ZeroDivisionError"
  let ?steps = "end_radius - start_radius"
  from a have "for_each (gradient_body (length st) center start_radius end_radius start_color
      end_color ?steps) (py_range ?steps) (st @ [Image Mode_RGBA sz sz []]) =
      Inl ZeroDivisionError"
    by (simp add: create_radial_gradient_def Image_new_def Let_def split: sum.splits)
  from for_each_Inl [OF this] obtain i s where
    i: "i \<in> set (py_range ?steps)" and
    "gradient_body (length st) center start_radius end_radius start_color end_color ?steps i s =
      Inl ZeroDivisionError"
    by blast
  moreover from i have "?steps \<noteq> 0" by (auto simp: in_py_range)
  ultimately show False using gradient_body_no_zero_division by blast
qed

lemma create_radial_gradient_no_steps:
  "end_radius \<le> start_radius \<Longrightarrow>
   create_radial_gradient sz center start_radius end_radius start_color end_color st =
     Inr (length st, st @ [Image Mode_RGBA sz sz []])"
  by (simp add: create_radial_gradient_def Image_new_def Let_def py_range_def)

lemma stroke_width_positive: "1 \<le> stroke_width scale"
  by (simp add: stroke_width_def)

text \<open>
  Claim C6. 20 is the smallest size of the size table, and
  \<^verbatim>\<open>draw_breathing_circles_icon(20)\<close> returns a 20 by 20 image and raises nothing. \<^verbatim>\<open>create_radial_gradient\<close> never raises \<^verbatim>\<open>ZeroDivisionError\<close>, and with a step
  count of zero or less it returns the empty image without entering its loop. The
  stroke width is at least 1 at every scale; at size 20, \<^verbatim>\<open>int(2 * scale)\<close> is 0 and the
  stroke width is 1, and the radii of the inner gradient layers all round to 0.
\<close>

theorem smallest_size_renders:
  "(\<exists>img st'. draw_breathing_circles_icon 20 st = Inr (img, st') \<and>
      width (st' ! img) = 20 \<and> height (st' ! img) = 20) \<and>
   create_radial_gradient sz center start_radius end_radius start_color end_color st0 \<noteq>
     Inl ZeroDivisionError \<and>
   (end_radius \<le> start_radius \<longrightarrow>
      create_radial_gradient sz center start_radius end_radius start_color end_color st0 =
        Inr (length st0, st0 @ [Image Mode_RGBA sz sz []])) \<and>
   1 \<le> stroke_width scale \<and>
   py_int (stroke_real (scale_of 20)) = 0 \<and> stroke_width (scale_of 20) = 1 \<and>
   map (\<lambda>(r, c). py_int r) (gradient_steps (scale_of 20)) = [0, 0, 0] \<and>
   (''icon-20.png'', 20) \<in> set ICON_SIZES \<and> list_all (\<lambda>entry. 20 \<le> snd entry) ICON_SIZES"
proof -
  have "(''icon-20.png'', 20) \<in> set ICON_SIZES" "list_all (\<lambda>entry. 20 \<le> snd entry) ICON_SIZES"
    by (simp_all add: ICON_SIZES_def)
  moreover from breathing_circles_fully_painted [of 20 st]
  have "\<exists>img st'. draw_breathing_circles_icon 20 st = Inr (img, st') \<and>
      width (st' ! img) = 20 \<and> height (st' ! img) = 20"
    by blast
  moreover have "py_int (stroke_real (scale_of 20)) = 0" "stroke_width (scale_of 20) = 1"
    "map (\<lambda>(r, c). py_int r) (gradient_steps (scale_of 20)) = [0, 0, 0]"
    by (simp_all add: stroke_width_def stroke_real_def scale_of_def py_int_def gradient_steps_def)
  ultimately show ?thesis
    using create_radial_gradient_no_zero_division create_radial_gradient_no_steps
      stroke_width_positive by blast
qed

theorem smallest_size_renders_witness:
  "(\<exists>img st'. draw_breathing_circles_icon 20 [] = Inr (img, st') \<and>
      width (st' ! img) = 20 \<and> height (st' ! img) = 20) \<and>
   (0::int) \<le> 0 \<and>
   create_radial_gradient 20 (10, 10) 0 0 (Rgba 255 255 255 230) (Rgba 89 115 217 204) [] =
     Inr (0, [Image Mode_RGBA 20 20 []]) \<and>
   stroke_width (scale_of 20) = 1"
  using smallest_size_renders [of "[]" 20 "(10, 10)" 0 0 "Rgba 255 255 255 230"
      "Rgba 89 115 217 204" "[]" "scale_of 20"]
  by simp

subsection \<open>Scaling\<close>

lemma floor_double:
  fixes q :: real
  shows "2 * \<lfloor>q\<rfloor> \<le> \<lfloor>2 * q\<rfloor>" and "\<lfloor>2 * q\<rfloor> \<le> 2 * \<lfloor>q\<rfloor> + 1"
proof -
  have "real_of_int (2 * \<lfloor>q\<rfloor>) \<le> 2 * q" by simp
  then show "2 * \<lfloor>q\<rfloor> \<le> \<lfloor>2 * q\<rfloor>" by (simp only: le_floor_iff)
  have "q < real_of_int \<lfloor>q\<rfloor> + 1" by linarith
  then have "2 * q < real_of_int (2 * \<lfloor>q\<rfloor> + 1) + 1" by (simp only: of_int_add of_int_mult of_int_numeral of_int_1)
  then have "\<lfloor>2 * q\<rfloor> < 2 * \<lfloor>q\<rfloor> + 1 + 1" by (simp only: floor_less_iff)
  then show "\<lfloor>2 * q\<rfloor> \<le> 2 * \<lfloor>q\<rfloor> + 1" by simp
qed

lemma py_int_double:
  assumes "0 \<le> (q::real)"
  shows "\<bar>py_int (2 * q) - 2 * py_int q\<bar> \<le> 1"
  using assms floor_double [of q] by (simp add: py_int_def)

lemma py_int_scaled_double:
  assumes "0 \<le> (k::real)"
  shows "\<bar>py_int (k * scale_of (2 * n)) - 2 * py_int (k * scale_of n)\<bar> \<le> 1"
proof -
  have e: "k * scale_of (2 * n) = 2 * (k * scale_of n)" by (simp add: scale_of_def)
  have "0 \<le> k * scale_of n" using assms by (simp add: scale_of_def)
  then show ?thesis unfolding e by (rule py_int_double)
qed

lemma stroke_width_double:
  "\<bar>stroke_width (scale_of (2 * n)) - 2 * stroke_width (scale_of n)\<bar> \<le> 1"
proof -
  have "2 * scale_of (2 * n) = 2 * (2 * scale_of n)" by (simp add: scale_of_def)
  moreover have "0 \<le> 2 * scale_of n" by (simp add: scale_of_def)
  ultimately have "2 * \<lfloor>2 * scale_of n\<rfloor> \<le> \<lfloor>2 * scale_of (2 * n)\<rfloor>"
    "\<lfloor>2 * scale_of (2 * n)\<rfloor> \<le> 2 * \<lfloor>2 * scale_of n\<rfloor> + 1" "0 \<le> \<lfloor>2 * scale_of n\<rfloor>"
    using floor_double [of "2 * scale_of n"] by simp_all
  moreover have "py_int (2 * scale_of (2 * n)) = \<lfloor>2 * scale_of (2 * n)\<rfloor>"
    "py_int (2 * scale_of n) = \<lfloor>2 * scale_of n\<rfloor>"
    by (simp_all add: py_int_floor scale_of_def)
  ultimately show ?thesis
    unfolding stroke_width_def stroke_real_def by linarith
qed

lemma ring_width_double: "\<bar>ring_width (2 * n) - 2 * ring_width n\<bar> \<le> 1"
proof -
  let ?a = "int n div 100"
  have "int (2 * n) = 2 * int n" by simp
  then have "2 * ?a \<le> int (2 * n) div 100" "int (2 * n) div 100 \<le> 2 * ?a + 1" "0 \<le> ?a"
    by linarith+
  then show ?thesis
    unfolding ring_width_def by linarith
qed

text \<open>
  Claim C7. From size \<open>n\<close> to size \<open>2 n\<close> every real-valued parameter of both renderers
  doubles exactly: the scale, the glow radii, the radii and widths of the circles, the
  radii of the gradient layers, the centre radius and the unrounded stroke width of
  \<^verbatim>\<open>draw_breathing_circles_icon\<close>, and the ring radii and the centre radius of
  \<^verbatim>\<open>create_zen_icon\<close>. Every integer obtained by rounding, the clamped stroke width and
  the clamped outline width \<^verbatim>\<open>max(1, size // 100)\<close> included, differs from twice its
  value at size \<open>n\<close> by at most 1.
\<close>

theorem parameters_double:
  "scale_of (2 * n) = 2 * scale_of n \<and>
   glow_radii (scale_of (2 * n)) =
     (2 * fst (glow_radii (scale_of n)), 2 * snd (glow_radii (scale_of n))) \<and>
   circles (scale_of (2 * n)) =
     map (\<lambda>(radius, wd, outline). (2 * radius, 2 * wd, outline)) (circles (scale_of n)) \<and>
   gradient_steps (scale_of (2 * n)) =
     map (\<lambda>(r, c). (2 * r, c)) (gradient_steps (scale_of n)) \<and>
   center_radius_real (scale_of (2 * n)) = 2 * center_radius_real (scale_of n) \<and>
   stroke_real (scale_of (2 * n)) = 2 * stroke_real (scale_of n) \<and>
   max_circle_radius (2 * n) = 2 * max_circle_radius n \<and>
   ring_radius (2 * n) num_circles i = 2 * ring_radius n num_circles i \<and>
   zen_center_radius (2 * n) = 2 * zen_center_radius n \<and>
   list_all2 (\<lambda>a b. \<bar>a - 2 * b\<bar> \<le> 1) (rounded_parameters (2 * n)) (rounded_parameters n) \<and>
   \<bar>ring_width (2 * n) - 2 * ring_width n\<bar> \<le> 1"
proof -
  have s: "scale_of (2 * n) = 2 * scale_of n" by (simp add: scale_of_def)
  have reals: "glow_radii (scale_of (2 * n)) =
     (2 * fst (glow_radii (scale_of n)), 2 * snd (glow_radii (scale_of n)))"
    "circles (scale_of (2 * n)) =
     map (\<lambda>(radius, wd, outline). (2 * radius, 2 * wd, outline)) (circles (scale_of n))"
    "gradient_steps (scale_of (2 * n)) =
     map (\<lambda>(r, c). (2 * r, c)) (gradient_steps (scale_of n))"
    "center_radius_real (scale_of (2 * n)) = 2 * center_radius_real (scale_of n)"
    "stroke_real (scale_of (2 * n)) = 2 * stroke_real (scale_of n)"
    by (simp_all add: s glow_radii_def circles_def gradient_steps_def center_radius_real_def
        stroke_real_def)
  have zen: "max_circle_radius (2 * n) = 2 * max_circle_radius n"
    "ring_radius (2 * n) num_circles i = 2 * ring_radius n num_circles i"
    "zen_center_radius (2 * n) = 2 * zen_center_radius n"
    by (simp_all add: max_circle_radius_def ring_radius_def zen_center_radius_def)
  have ints: "list_all2 (\<lambda>a b. \<bar>a - 2 * b\<bar> \<le> 1) (rounded_parameters (2 * n))
      (rounded_parameters n)"
    unfolding rounded_parameters_def Let_def glow_radii_def circles_def gradient_steps_def
      center_radius_real_def
    by (simp add: py_int_scaled_double stroke_width_double)
  from s reals zen ints ring_width_double show ?thesis by blast
qed

end
